theory Spec2Isabelle
  imports Complex_Main "HOL-Library.Multiset" "HOL-Library.AList" "HOL-Library.Sublist"
begin

section \<open>Python strings and lists\<close>

text \<open>
  Strings are lists of characters, and a character stands for the code point of the
  same number, 0 to 255; code points above 255 are outside this model. \<open>isspace\<close>
  lists the code points in that range for which Python's \<open>str.isspace\<close> holds, which
  are also those the pattern \<open>\s\<close> of \<open>re\<close> matches: tab, line feed, vertical tab, form
  feed, carriage return, the four separators 0x1C..0x1F, the blank, NEL (0x85) and
  the no-break space (0xA0).
\<close>

definition isspace :: "char \<Rightarrow> bool" where
  "isspace c = (c \<in> set [CHR 0x09, CHR 0x0A, CHR 0x0B, CHR 0x0C, CHR 0x0D,
                          CHR 0x1C, CHR 0x1D, CHR 0x1E, CHR 0x1F, CHR 0x20,
                          CHR 0x85, CHR 0xA0])"

text \<open>
  \<open>s.split()\<close> with no argument: the maximal runs of characters that are not white
  space, in order. \<open>split_from w s\<close> scans \<open>s\<close> with the word \<open>w\<close> read so far.
\<close>

fun split_from :: "string \<Rightarrow> string \<Rightarrow> string list" where
  "split_from w [] = (if w = [] then [] else [w])"
| "split_from w (c # cs) =
     (if isspace c then (if w = [] then split_from [] cs else w # split_from [] cs)
      else split_from (w @ [c]) cs)"

definition str_split :: "string \<Rightarrow> string list" where
  "str_split s = split_from [] s"

text \<open>\<open>sep.join(xs)\<close>.\<close>

fun str_join :: "string \<Rightarrow> string list \<Rightarrow> string" where
  "str_join sep [] = []"
| "str_join sep [x] = x"
| "str_join sep (x # y # ys) = x @ sep @ str_join sep (y # ys)"

text \<open>
  \<open>s.replace(old, new)\<close> for a non-empty \<open>old\<close>: the occurrences of \<open>old\<close> are replaced
  from left to right, without overlap.
\<close>

function str_replace :: "string \<Rightarrow> string \<Rightarrow> string \<Rightarrow> string" where
  "str_replace old new [] = []"
| "str_replace old new (c # cs) =
     (if old \<noteq> [] \<and> prefix old (c # cs)
      then new @ str_replace old new (drop (length old) (c # cs))
      else c # str_replace old new cs)"
  by pat_completeness auto
termination
  by (relation "measure (\<lambda>(old, new, s). length s)") (auto simp: neq_Nil_conv)

text \<open>
  The slice \<open>xs[a:]\<close>: a negative start counts from the end and is clipped at the
  front of the list, a start past the end gives the empty list.
\<close>

definition slice_from :: "int \<Rightarrow> 'a list \<Rightarrow> 'a list" where
  "slice_from a xs =
     (if a < 0 then drop (nat (int (length xs) + a)) xs else drop (nat a) xs)"

text \<open>
  The slice \<open>xs[:k]\<close>: a negative stop leaves out that many elements at the end.
\<close>

definition slice_to :: "int \<Rightarrow> 'a list \<Rightarrow> 'a list" where
  "slice_to k xs =
     (if k < 0 then take (nat (int (length xs) + k)) xs else take (nat k) xs)"

text \<open>
  Indexing \<open>xs[i]\<close>: a negative index counts from the end, and an index outside
  \<open>-len(xs) .. len(xs) - 1\<close> raises \<open>IndexError\<close>.
\<close>

datatype py_error = IndexError | ValueError string

definition getitem :: "'a list \<Rightarrow> int \<Rightarrow> py_error + 'a" where
  "getitem xs i =
     (if 0 \<le> i \<and> i < int (length xs) then Inr (xs ! nat i)
      else if - int (length xs) \<le> i \<and> i < 0 then Inr (xs ! nat (int (length xs) + i))
      else Inl IndexError)"

text \<open>\<open>s.endswith(suffix)\<close>.\<close>

definition endswith :: "string \<Rightarrow> string \<Rightarrow> bool" where
  "endswith s sfx = suffix sfx s"

section \<open>The text segmenter (app.py, \<open>chunk_text\<close>)\<close>

text \<open>
  \<open>len(sentence.split())\<close>, the token count of the source.
\<close>

definition token_count :: "string \<Rightarrow> int" where
  "token_count s = int (length (str_split s))"

text \<open>
  \<open>current_chunk[-overlap_sentences:] if overlap_sentences else []\<close>
\<close>

definition overlap_of :: "int \<Rightarrow> string list \<Rightarrow> string list" where
  "overlap_of overlap_sentences current_chunk =
     (if overlap_sentences \<noteq> 0 then slice_from (- overlap_sentences) current_chunk else [])"

text \<open>
  The loop of \<open>chunk_text\<close> over the sentences, with the three variables it updates
  (\<open>chunks\<close>, \<open>current_chunk\<close>, \<open>current_length\<close>); the equation for the empty list is
  the code after the loop.
\<close>

fun chunk_loop ::
  "int \<Rightarrow> int \<Rightarrow> string list \<Rightarrow> string list \<Rightarrow> string list \<Rightarrow> int \<Rightarrow> string list" where
  "chunk_loop max_tokens overlap_sentences [] chunks current_chunk current_length =
     (if current_chunk \<noteq> [] then chunks @ [str_join '' '' current_chunk] else chunks)"
| "chunk_loop max_tokens overlap_sentences (sentence # sentences) chunks current_chunk
       current_length =
     (if current_length + token_count sentence \<le> max_tokens
      then chunk_loop max_tokens overlap_sentences sentences chunks
             (current_chunk @ [sentence]) (current_length + token_count sentence)
      else chunk_loop max_tokens overlap_sentences sentences
             (if current_chunk \<noteq> [] then chunks @ [str_join '' '' current_chunk] else chunks)
             (overlap_of overlap_sentences current_chunk @ [sentence])
             (sum_list (map token_count
                (overlap_of overlap_sentences current_chunk @ [sentence]))))"

text \<open>
  \<open>chunk_text(text, max_tokens=300, overlap_sentences=2)\<close>. The sentence splitter
  \<open>sent_tokenize\<close> of NLTK is a parameter.
\<close>

definition chunk_text :: "(string \<Rightarrow> string list) \<Rightarrow> string \<Rightarrow> int \<Rightarrow> int \<Rightarrow> string list" where
  "chunk_text sent_tokenize text max_tokens overlap_sentences =
     chunk_loop max_tokens overlap_sentences (sent_tokenize text) [] [] 0"

text \<open>
  The same loop, keeping each closed chunk as the list of its sentences instead of
  joining them: \<open>chunk_text\<close> is the image of \<open>chunk_groups\<close> under \<open>" ".join\<close>
  (lemma \<open>chunk_text_groups\<close>).
\<close>

fun groups_loop ::
  "int \<Rightarrow> int \<Rightarrow> string list \<Rightarrow> string list list \<Rightarrow> string list \<Rightarrow> int
     \<Rightarrow> string list list" where
  "groups_loop max_tokens overlap_sentences [] groups current_chunk current_length =
     (if current_chunk \<noteq> [] then groups @ [current_chunk] else groups)"
| "groups_loop max_tokens overlap_sentences (sentence # sentences) groups current_chunk
       current_length =
     (if current_length + token_count sentence \<le> max_tokens
      then groups_loop max_tokens overlap_sentences sentences groups
             (current_chunk @ [sentence]) (current_length + token_count sentence)
      else groups_loop max_tokens overlap_sentences sentences
             (if current_chunk \<noteq> [] then groups @ [current_chunk] else groups)
             (overlap_of overlap_sentences current_chunk @ [sentence])
             (sum_list (map token_count
                (overlap_of overlap_sentences current_chunk @ [sentence]))))"

definition chunk_groups :: "string list \<Rightarrow> int \<Rightarrow> int \<Rightarrow> string list list" where
  "chunk_groups sentences max_tokens overlap_sentences =
     groups_loop max_tokens overlap_sentences sentences [] [] 0"

text \<open>The last \<open>n\<close> elements of a list (all of them when it has fewer).\<close>

definition last_n :: "nat \<Rightarrow> 'a list \<Rightarrow> 'a list" where
  "last_n n xs = drop (length xs - n) xs"

text \<open>The token count of a chunk kept as a list of sentences.\<close>

definition group_tokens :: "string list \<Rightarrow> int" where
  "group_tokens g = sum_list (map token_count g)"

text \<open>
  A sentence splitter for the examples: it knows one text, the one of the
  specification's scenario A, and its three sentences.
\<close>

definition example_text :: string where
  "example_text = ''Alpha is first. Beta is second. Gamma is third.''"

definition example_tokenize :: "string \<Rightarrow> string list" where
  "example_tokenize text =
     (if text = example_text
      then [''Alpha is first.'', ''Beta is second.'', ''Gamma is third.''] else [])"

section \<open>The document store and its request handlers (app.py)\<close>

text \<open>
  \<open>clean_text\<close>. \<open>re.sub(r'\s+', ' ', text)\<close> turns every maximal run of white space
  into one blank (\<open>collapse_ws\<close>, whose flag says that the character before was white
  space). The next line of the source, read as the Python parser reads its bytes, is
  three calls of \<open>replace\<close>: the first has a triple-quoted first argument and replaces
  the fourteen characters \<open>quoted_pattern\<close> (comma, blank, apostrophe, quotation mark,
  apostrophe, then \<open>).replace(\<close>) by a quotation mark; the other two replace an
  apostrophe by an apostrophe. \<open>strip()\<close> then removes the white space at both ends.
\<close>

fun collapse_ws :: "bool \<Rightarrow> string \<Rightarrow> string" where
  "collapse_ws in_run [] = []"
| "collapse_ws in_run (c # cs) =
     (if isspace c then (if in_run then collapse_ws True cs else CHR '' '' # collapse_ws True cs)
      else c # collapse_ws False cs)"

definition strip :: "string \<Rightarrow> string" where
  "strip s = rev (dropWhile isspace (rev (dropWhile isspace s)))"

definition quoted_pattern :: string where
  "quoted_pattern = '', '' @ [CHR 0x27, CHR 0x22, CHR 0x27] @ '').replace(''"

definition clean_text :: "string \<Rightarrow> string" where
  "clean_text text =
     strip (str_replace [CHR 0x27] [CHR 0x27]
             (str_replace [CHR 0x27] [CHR 0x27]
               (str_replace quoted_pattern [CHR 0x22] (collapse_ws False text))))"

text \<open>
  A vector index is modelled by its \<open>search\<close> method: \<open>index.search(queries, k)\<close>
  takes the matrix of query vectors the embedding model returned for a one-element
  list and \<open>k\<close>, and gives \<open>zip(distances[0], indices[0])\<close>, the scores and labels
  found for the first (only) query.
\<close>

type_synonym 'v index = "'v list \<Rightarrow> int \<Rightarrow> (real \<times> int) list"

text \<open>
  The \<open>metadata\<close> dictionary of a document, and the entry of \<open>user_documents\<close> that
  holds it with the index.
\<close>

record metadata =
  filename :: string
  chunks :: "string list"
  upload_date :: string
  total_chunks :: int

record 'v doc_data =
  index :: "'v index"
  metadata :: metadata

type_synonym 'v user_documents = "string \<rightharpoonup> 'v doc_data"

text \<open>
  What app.py calls and does not define: the text extraction of PyMuPDF and
  python-docx (behind \<open>extract_text_from_pdf\<close> and \<open>extract_text_from_docx\<close>, which
  read the file at a path), NLTK's \<open>sent_tokenize\<close>, the sentence transformer's
  \<open>encode\<close>, the construction of a \<open>faiss.IndexFlatIP\<close> from a matrix of embeddings
  (\<open>IndexFlatIP(dim)\<close> followed by \<open>add\<close>), the clock, and the two LLM chains (the
  question chain run on a context and a question, the summary chain run on a document
  and a file name).
\<close>

record 'v collaborators =
  extract_text_from_pdf :: "string \<Rightarrow> string"
  extract_text_from_docx :: "string \<Rightarrow> string"
  sent_tokenize :: "string \<Rightarrow> string list"
  encode :: "string list \<Rightarrow> 'v list"
  IndexFlatIP :: "'v list \<Rightarrow> 'v index"
  now_isoformat :: string
  qa_chain :: "string \<Rightarrow> string \<Rightarrow> string"
  summary_chain :: "string \<Rightarrow> string \<Rightarrow> string"

text \<open>
  \<open>create_user_index(user_id, file_path, filename)\<close>: the result is the metadata or the
  exception raised, together with \<open>user_documents\<close> as the call leaves it.
\<close>

definition create_user_index ::
  "'v collaborators \<Rightarrow> 'v user_documents \<Rightarrow> string \<Rightarrow> string \<Rightarrow> string
     \<Rightarrow> (py_error + metadata) \<times> 'v user_documents" where
  "create_user_index env user_documents user_id file_path fname =
     (if \<not> endswith fname ''.pdf'' \<and> \<not> endswith fname ''.docx''
      then (Inl (ValueError ''Unsupported file format''), user_documents)
      else
        let text = (if endswith fname ''.pdf'' then extract_text_from_pdf env file_path
                    else extract_text_from_docx env file_path);
            text = clean_text text;
            cs = chunk_text (sent_tokenize env) text 300 2
        in if cs = []
           then (Inl (ValueError ''No text extracted from document''), user_documents)
           else
             let embeddings = encode env cs;
                 md = \<lparr>filename = fname, chunks = cs, upload_date = now_isoformat env,
                       total_chunks = int (length cs)\<rparr>
             in (Inr md,
                 user_documents(user_id \<mapsto> \<lparr>index = IndexFlatIP env embeddings, metadata = md\<rparr>)))"

text \<open>
  The result dictionaries of \<open>semantic_search\<close> in app.py, and its loop over
  \<open>zip(distances[0], indices[0])\<close>. \<open>chunks[idx]\<close> is Python indexing, so a negative
  label that passes the test \<open>idx < len(chunks)\<close> reads from the end of the list.
\<close>

record hit =
  chunk_text' :: string
  score :: real
  chunk_index :: int

fun search_loop :: "string list \<Rightarrow> (real \<times> int) list \<Rightarrow> hit list \<Rightarrow> py_error + hit list" where
  "search_loop cs [] results = Inr results"
| "search_loop cs ((sc, i) # found) results =
     (if i < int (length cs)
      then (case getitem cs i of
              Inl e \<Rightarrow> Inl e
            | Inr c \<Rightarrow> search_loop cs found
                        (results @ [\<lparr>chunk_text' = c, score = sc, chunk_index = i\<rparr>]))
      else search_loop cs found results)"

definition semantic_search_app ::
  "'v collaborators \<Rightarrow> 'v user_documents \<Rightarrow> string \<Rightarrow> string \<Rightarrow> int \<Rightarrow> py_error + hit list" where
  "semantic_search_app env user_documents user_id query k =
     (case user_documents user_id of
        None \<Rightarrow> Inr []
      | Some doc \<Rightarrow>
          search_loop (chunks (metadata doc)) (index doc (encode env [query]) k) [])"

text \<open>
  The JSON bodies the handlers return, each with its HTTP status (200 where the source
  gives none).
\<close>

datatype body =
    Error string
  | Message string
  | Answer string
  | AnswerWithSources string string "(string \<times> real) list"
  | Summary string string int int

type_synonym response = "body \<times> int"

text \<open>
  The JSON object of a request: \<open>data.get(key)\<close> is \<open>None\<close> for a missing key.
\<close>

record request =
  user_id :: "string option"
  question :: "string option"

text \<open>\<open>not x\<close> for an optional string: it is missing or empty.\<close>

definition falsy :: "string option \<Rightarrow> bool" where
  "falsy x = (case x of None \<Rightarrow> True | Some s \<Rightarrow> s = [])"

text \<open>
  \<open>ask_question\<close>. An exception of \<open>semantic_search\<close> is not caught by the handler.
\<close>

definition ask_question ::
  "'v collaborators \<Rightarrow> 'v user_documents \<Rightarrow> request \<Rightarrow> py_error + response" where
  "ask_question env user_documents data =
     (if falsy (user_id data) \<or> falsy (question data)
      then Inr (Error ''user_id and question required'', 400)
      else if the (user_id data) \<notin> dom user_documents
      then Inr (Error ''Document not found. Please upload first.'', 404)
      else
        (case semantic_search_app env user_documents (the (user_id data))
                (the (question data)) 5 of
           Inl e \<Rightarrow> Inl e
         | Inr results \<Rightarrow>
             if results = []
             then Inr (Answer ''I couldn't find relevant information in the document.'', 200)
             else
               let context = str_join [CHR 0x0A, CHR 0x0A] (map chunk_text' results);
                   answer = qa_chain env context (the (question data))
               in Inr (AnswerWithSources (the (question data)) answer
                         (map (\<lambda>r. (take 200 (chunk_text' r) @ ''...'', score r))
                            (take 3 results)), 200)))"

text \<open>
  \<open>generate_summary\<close> of app.py; \<open>selected_chunks\<close> is
  \<open>chunks[:max_chunks] if len(chunks) > max_chunks else chunks\<close> with \<open>max_chunks = 50\<close>.
\<close>

definition selected_chunks :: "string list \<Rightarrow> string list" where
  "selected_chunks cs = (if length cs > 50 then slice_to 50 cs else cs)"

definition generate_summary_app ::
  "'v collaborators \<Rightarrow> 'v user_documents \<Rightarrow> request \<Rightarrow> response" where
  "generate_summary_app env user_documents data =
     (if falsy (user_id data) then (Error ''user_id required'', 400)
      else
        (case user_documents (the (user_id data)) of
           None \<Rightarrow> (Error ''Document not found'', 404)
         | Some doc \<Rightarrow>
             let cs = chunks (metadata doc);
                 fname = filename (metadata doc);
                 full_text = str_join [CHR 0x0A, CHR 0x0A] (selected_chunks cs);
                 summary = summary_chain env full_text fname
             in (Summary summary fname (int (length (selected_chunks cs))) (int (length cs)),
                 200)))"

text \<open>
  \<open>delete_user_document(user_id)\<close>: the response and \<open>user_documents\<close> afterwards. The
  removal of the uploaded files from the upload folder is file system work outside
  this model.
\<close>

definition delete_user_document ::
  "'v user_documents \<Rightarrow> string \<Rightarrow> response \<times> 'v user_documents" where
  "delete_user_document user_documents uid =
     (if uid \<notin> dom user_documents then ((Error ''Document not found'', 404), user_documents)
      else ((Message ''Document deleted successfully'', 200), user_documents(uid := None)))"

section \<open>Ensemble search over the corpus (main.py)\<close>

text \<open>
  A row of the metadata table \<open>df_chunks\<close>, an entry of \<open>combined_results\<close> as the two
  loops build it, and the entry with its \<open>combined_score\<close>.
\<close>

record 'k row =
  chunk_id :: 'k
  row_theme :: string
  file_name :: string
  row_chunk_text :: string

record entry =
  theme :: string
  file' :: string
  entry_chunk_text :: string
  score_primary :: real
  score_enhanced :: real
  idx :: int

record result = entry +
  combined_score :: real

text \<open>
  The globals of main.py that \<open>semantic_search\<close> reads: the two sentence transformers
  (their \<open>encode\<close> with normalised output), the one index read from
  \<open>sdg_faiss.index\<close>, and the table read from \<open>sdg_faiss_metadata.csv\<close>.
\<close>

record ('v, 'k) corpus =
  primary_model :: "string list \<Rightarrow> 'v list"
  secondary_model :: "string list \<Rightarrow> 'v list"
  faiss_index :: "'v index"
  df_chunks :: "'k row list"

text \<open>
  \<open>combined_results\<close> is a dictionary in insertion order: an association list in which
  \<open>AList.update\<close> replaces the value of a key that is present, in place, and appends a
  new key at the end. \<open>df_chunks.iloc[idx]\<close> is positional indexing with Python's
  negative positions and \<open>IndexError\<close> outside the table.
\<close>

fun primary_loop ::
  "'k row list \<Rightarrow> (real \<times> int) list \<Rightarrow> ('k \<times> entry) list \<Rightarrow> py_error + ('k \<times> entry) list" where
  "primary_loop df [] combined_results = Inr combined_results"
| "primary_loop df ((sc, i) # found) combined_results =
     (if i \<noteq> - 1 \<and> i < int (length df)
      then (case getitem df i of
              Inl e \<Rightarrow> Inl e
            | Inr r \<Rightarrow> primary_loop df found
                (AList.update (chunk_id r)
                   \<lparr>theme = row_theme r, file' = file_name r, entry_chunk_text = row_chunk_text r,
                    score_primary = sc, score_enhanced = 0, idx = i\<rparr> combined_results))
      else primary_loop df found combined_results)"

fun enhanced_loop ::
  "'k row list \<Rightarrow> (real \<times> int) list \<Rightarrow> ('k \<times> entry) list \<Rightarrow> py_error + ('k \<times> entry) list" where
  "enhanced_loop df [] combined_results = Inr combined_results"
| "enhanced_loop df ((sc, i) # found) combined_results =
     (if i \<noteq> - 1 \<and> i < int (length df)
      then (case getitem df i of
              Inl e \<Rightarrow> Inl e
            | Inr r \<Rightarrow> enhanced_loop df found
                (case map_of combined_results (chunk_id r) of
                   Some e \<Rightarrow> AList.update (chunk_id r) (e\<lparr>score_enhanced := sc\<rparr>) combined_results
                 | None \<Rightarrow> AList.update (chunk_id r)
                     \<lparr>theme = row_theme r, file' = file_name r,
                      entry_chunk_text = row_chunk_text r,
                      score_primary = 0, score_enhanced = sc, idx = i\<rparr> combined_results))
      else enhanced_loop df found combined_results)"

text \<open>
  Python's floats are IEEE 754 doubles. A score is modelled by the real number the
  double stands for, and an arithmetic operation by the exact operation followed by
  \<open>float64\<close>, the rounding to the nearest number with a significand of 53 bits, a
  tie going to the even significand. \<open>ulp_exponent x\<close> is the exponent of the last
  bit of such a significand for \<open>x\<close>. The range of the exponent is not limited here:
  overflow, subnormal numbers, infinities and NaN are not modelled (the scores of
  the source are inner products of unit vectors in single precision).
\<close>

definition round_half_even :: "real \<Rightarrow> int" where
  "round_half_even y =
     (if y - of_int \<lfloor>y\<rfloor> < 1 / 2 then \<lfloor>y\<rfloor>
      else if 1 / 2 < y - of_int \<lfloor>y\<rfloor> then \<lfloor>y\<rfloor> + 1
      else if even \<lfloor>y\<rfloor> then \<lfloor>y\<rfloor> else \<lfloor>y\<rfloor> + 1)"

definition ulp_exponent :: "real \<Rightarrow> int" where
  "ulp_exponent x = \<lfloor>log 2 \<bar>x\<bar>\<rfloor> - 52"

definition float64 :: "real \<Rightarrow> real" where
  "float64 x =
     (if x = 0 then 0
      else of_int (round_half_even (x / 2 powi ulp_exponent x)) * 2 powi ulp_exponent x)"

text \<open>
  The literals \<open>0.7\<close> and \<open>0.3\<close> of main.py are the doubles nearest to them,
  \<open>0x1.6666666666666p-1\<close> and \<open>0x1.3333333333333p-2\<close>.
\<close>

definition weight_primary :: real where
  "weight_primary = 6305039478318694 / 2 ^ 53"

definition weight_enhanced :: real where
  "weight_enhanced = 5404319552844595 / 2 ^ 54"

text \<open>
  \<open>result["combined_score"] = result["score_primary"] * 0.7 + result["score_enhanced"] * 0.3\<close>:
  two rounded products and their rounded sum.
\<close>

definition with_combined_score :: "entry \<Rightarrow> result" where
  "with_combined_score e =
     \<lparr>theme = theme e, file' = file' e, entry_chunk_text = entry_chunk_text e,
      score_primary = score_primary e, score_enhanced = score_enhanced e, idx = idx e,
      combined_score =
        float64 (float64 (score_primary e * weight_primary) +
                 float64 (score_enhanced e * weight_enhanced))\<rparr>"

text \<open>
  \<open>sorted(values, key=lambda x: x["combined_score"], reverse=True)\<close>: a stable sort
  by descending score, that is a stable ascending sort by the negated score.
\<close>

definition sorted_results :: "result list \<Rightarrow> result list" where
  "sorted_results rs = sort_key (\<lambda>r. - combined_score r) rs"

text \<open>
  The part of \<open>semantic_search\<close> after the two searches: \<open>combined_results\<close> as the
  two loops leave it, then the scores, the sort and the slice \<open>sorted_results[:k]\<close>.
  \<open>semantic_search\<close> of main.py itself follows.
\<close>

definition combined_results ::
  "'k row list \<Rightarrow> (real \<times> int) list \<Rightarrow> (real \<times> int) list \<Rightarrow> py_error + ('k \<times> entry) list" where
  "combined_results df found_primary found_enhanced =
     (case primary_loop df found_primary [] of
        Inl e \<Rightarrow> Inl e
      | Inr d \<Rightarrow> enhanced_loop df found_enhanced d)"

definition scored_values :: "('k \<times> entry) list \<Rightarrow> result list" where
  "scored_values d = map (\<lambda>(c, e). with_combined_score e) d"

definition fuse ::
  "'k row list \<Rightarrow> (real \<times> int) list \<Rightarrow> (real \<times> int) list \<Rightarrow> int \<Rightarrow> py_error + result list" where
  "fuse df found_primary found_enhanced k =
     (case combined_results df found_primary found_enhanced of
        Inl e \<Rightarrow> Inl e
      | Inr d \<Rightarrow> Inr (slice_to k (sorted_results (scored_values d))))"

definition semantic_search_main ::
  "('v, 'k) corpus \<Rightarrow> string \<Rightarrow> int \<Rightarrow> py_error + result list" where
  "semantic_search_main g query k =
     fuse (df_chunks g)
       (faiss_index g (primary_model g [query]) k)
       (faiss_index g (secondary_model g [query]) k) k"

text \<open>
  The query of the specification's ensemble mode, in its words: embed the query with
  both providers, search each provider's own index with fetch width \<open>k\<close>, and fuse the
  two result sets.
\<close>

definition ensemble_query ::
  "(string list \<Rightarrow> 'v list) \<Rightarrow> (string list \<Rightarrow> 'v list) \<Rightarrow> 'v index \<Rightarrow> 'v index
     \<Rightarrow> 'k row list \<Rightarrow> string \<Rightarrow> int \<Rightarrow> py_error + result list" where
  "ensemble_query primary secondary index_primary index_secondary df query k =
     fuse df (index_primary (primary [query]) k) (index_secondary (secondary [query]) k) k"

text \<open>
  For the statement of the fusion: the test both loops apply to a label, and the chunk
  ids of the entries of a search result that pass it (for a label that is a position
  of the table, \<open>iloc\<close> reads the row at that position).
\<close>

definition valid_label :: "'k row list \<Rightarrow> int \<Rightarrow> bool" where
  "valid_label df i = (i \<noteq> - 1 \<and> i < int (length df))"

definition hit_ids :: "'k row list \<Rightarrow> (real \<times> int) list \<Rightarrow> 'k set" where
  "hit_ids df found =
     set (map (\<lambda>h. chunk_id (df ! nat (snd h))) (filter (\<lambda>h. valid_label df (snd h)) found))"

text \<open>
  An entry stored under a chunk id carries the position and the columns of a row of
  the table that has this chunk id.
\<close>

definition from_row :: "'k row list \<Rightarrow> 'k \<Rightarrow> entry \<Rightarrow> bool" where
  "from_row df c e =
     (0 \<le> idx e \<and> idx e < int (length df) \<and>
      chunk_id (df ! nat (idx e)) = c \<and>
      theme e = row_theme (df ! nat (idx e)) \<and>
      file' e = file_name (df ! nat (idx e)) \<and>
      entry_chunk_text e = row_chunk_text (df ! nat (idx e)))"

text \<open>
  The entry the second loop stores for a row and a score: the entry already there with
  its \<open>score_enhanced\<close> replaced, or a new entry with \<open>score_primary = 0\<close>.
\<close>

definition merged_entry :: "('k \<times> entry) list \<Rightarrow> 'k row \<Rightarrow> real \<Rightarrow> int \<Rightarrow> entry" where
  "merged_entry d r sc i =
     (case map_of d (chunk_id r) of
        Some e \<Rightarrow> e\<lparr>score_enhanced := sc\<rparr>
      | None \<Rightarrow> \<lparr>theme = row_theme r, file' = file_name r, entry_chunk_text = row_chunk_text r,
                 score_primary = 0, score_enhanced = sc, idx = i\<rparr>)"

section \<open>Instances for the examples\<close>

text \<open>
  An exhaustive inner-product index over vectors of reals, after the contract faiss
  documents for a flat index: a search returns exactly \<open>k\<close> entries, the best scores
  first, and where the index holds fewer than \<open>k\<close> vectors the remaining entries carry
  the label \<open>-1\<close> and the lowest score. Inner products are exact here, and equal
  scores are listed by position; the examples have no equal scores among the vectors
  of an index.
\<close>

definition inner_product :: "real list \<Rightarrow> real list \<Rightarrow> real" where
  "inner_product u v = sum_list (map (\<lambda>(a, b). a * b) (zip u v))"

definition lowest_score :: real where
  "lowest_score = - 340282346638528859811704183484516925440"

definition flat_ip :: "real list list \<Rightarrow> real list index" where
  "flat_ip vectors queries k =
     (case queries of
        [] \<Rightarrow> []
      | q # _ \<Rightarrow>
          let scored = map (\<lambda>(i, v). (inner_product q v, int i)) (enumerate 0 vectors);
              best = take (nat k) (sort_key (\<lambda>(sc, i). - sc) scored)
          in best @ replicate (nat k - length best) (lowest_score, - 1))"

text \<open>
  Collaborators for the examples: every text is embedded as the unit vector \<open>[1]\<close>, the
  index is the flat index above, and the chains echo their first argument.
\<close>

definition example_env :: "real list collaborators" where
  "example_env =
     \<lparr>extract_text_from_pdf = (\<lambda>path. if path = ''uploads/u1_alpha.pdf'' then example_text else []),
      extract_text_from_docx = (\<lambda>path. []),
      sent_tokenize = example_tokenize,
      encode = map (\<lambda>t. [1]),
      IndexFlatIP = flat_ip,
      now_isoformat = ''2025-01-01T00:00:00'',
      qa_chain = (\<lambda>context question. context),
      summary_chain = (\<lambda>document fname. document)\<rparr>"

text \<open>
  The store after the example text was uploaded for user \<open>u1\<close>: one chunk.
\<close>

definition example_documents :: "real list user_documents" where
  "example_documents =
     snd (create_user_index example_env Map.empty ''u1'' ''uploads/u1_alpha.pdf'' ''alpha.pdf'')"

text \<open>
  A corpus of two chunks for the ensemble search. The index holds the primary
  provider's embeddings of the two chunk texts; the secondary provider embeds the
  same texts the other way round.
\<close>

definition example_primary :: "string list \<Rightarrow> real list list" where
  "example_primary = map (\<lambda>t. if t = ''water'' then [1, 0] else [0, 1])"

definition example_secondary :: "string list \<Rightarrow> real list list" where
  "example_secondary = map (\<lambda>t. if t = ''water'' then [0, 1] else [1, 0])"

definition example_rows :: "nat row list" where
  "example_rows =
     [\<lparr>chunk_id = 10, row_theme = ''SDG6'', file_name = ''a.pdf'', row_chunk_text = ''water''\<rparr>,
      \<lparr>chunk_id = 11, row_theme = ''SDG7'', file_name = ''b.pdf'', row_chunk_text = ''energy''\<rparr>]"

definition example_corpus :: "(real list, nat) corpus" where
  "example_corpus =
     \<lparr>primary_model = example_primary, secondary_model = example_secondary,
      faiss_index = flat_ip (example_primary (map row_chunk_text example_rows)),
      df_chunks = example_rows\<rparr>"

section \<open>Properties of the segmenter\<close>

lemma isspace_blank: "isspace CHR '' ''"
  by (simp add: isspace_def)

lemma length_split_from_append:
  "length (split_from w (s @ CHR '' '' # t)) = length (split_from w s) + length (split_from [] t)"
  by (induction s arbitrary: w) (simp_all add: isspace_blank)

lemma token_count_append:
  "token_count (s @ CHR '' '' # t) = token_count s + token_count t"
  by (simp add: token_count_def str_split_def length_split_from_append)

lemma token_count_join: "token_count (str_join '' '' g) = group_tokens g"
proof (induction "'' ''" g rule: str_join.induct)
  case 1
  show ?case by (simp add: group_tokens_def token_count_def str_split_def)
next
  case (2 x)
  show ?case by (simp add: group_tokens_def)
next
  case (3 x y ys)
  then show ?case by (simp add: group_tokens_def token_count_append)
qed

lemma chunk_loop_groups:
  "chunk_loop mt ov ss (map (str_join '' '') G) cur len =
   map (str_join '' '') (groups_loop mt ov ss G cur len)"
proof (induction ss arbitrary: G cur len)
  case Nil
  show ?case by simp
next
  case (Cons s ss)
  from Cons [of "G @ [cur]"] Cons [of G] show ?case by simp
qed

lemma chunk_text_groups:
  "chunk_text tok text mt ov = map (str_join '' '') (chunk_groups (tok text) mt ov)"
  using chunk_loop_groups [of mt ov "tok text" "[]" "[]" 0]
  by (simp add: chunk_text_def chunk_groups_def)

lemma groups_loop_mset:
  "mset (concat G) + mset cur + mset ss \<subseteq># mset (concat (groups_loop mt ov ss G cur len))"
proof (induction ss arbitrary: G cur len)
  case Nil
  show ?case by simp
next
  case (Cons s ss)
  show ?case
  proof (cases "len + token_count s \<le> mt")
    case True
    with Cons [of G "cur @ [s]" "len + token_count s"] show ?thesis
      by (simp add: ac_simps)
  next
    case False
    let ?G = "if cur \<noteq> [] then G @ [cur] else G"
    let ?c = "overlap_of ov cur @ [s]"
    have "mset (concat G) + mset cur + mset (s # ss) \<subseteq># mset (concat ?G) + mset ?c + mset ss"
      by simp
    also have "\<dots> \<subseteq># mset (concat (groups_loop mt ov ss ?G ?c (sum_list (map token_count ?c))))"
      by (rule Cons)
    finally show ?thesis using False by simp
  qed
qed

lemma overlap_of_last_n: "0 \<le> ov \<Longrightarrow> overlap_of ov cur = last_n (nat ov) cur"
  by (auto simp add: overlap_of_def slice_from_def last_n_def nat_diff_distrib' )

lemma length_last_n: "length (last_n n xs) \<le> n"
  by (simp add: last_n_def)

lemma set_last_n: "set (last_n n xs) \<subseteq> set xs"
  by (simp add: last_n_def set_drop_subset)

lemma groups_loop_limit:
  assumes "0 \<le> ov"
    and "len = group_tokens cur"
    and "\<forall>g\<in>set G. g \<noteq> [] \<and> set g \<subseteq> S \<and> (mt < group_tokens g \<longrightarrow> length g \<le> nat ov + 1)"
    and "set cur \<subseteq> S \<and> (mt < group_tokens cur \<longrightarrow> length cur \<le> nat ov + 1)"
    and "set ss \<subseteq> S"
  shows "\<forall>g\<in>set (groups_loop mt ov ss G cur len).
           g \<noteq> [] \<and> set g \<subseteq> S \<and> (mt < group_tokens g \<longrightarrow> length g \<le> nat ov + 1)"
  using assms
proof (induction ss arbitrary: G cur len)
  case Nil
  then show ?case by auto
next
  case (Cons s ss)
  show ?case
  proof (cases "len + token_count s \<le> mt")
    case True
    have "\<forall>g\<in>set (groups_loop mt ov ss G (cur @ [s]) (len + token_count s)).
           g \<noteq> [] \<and> set g \<subseteq> S \<and> (mt < group_tokens g \<longrightarrow> length g \<le> nat ov + 1)"
    proof (rule Cons.IH)
      show "len + token_count s = group_tokens (cur @ [s])"
        using Cons.prems(2) by (simp add: group_tokens_def)
      show "set (cur @ [s]) \<subseteq> S \<and> (mt < group_tokens (cur @ [s]) \<longrightarrow> length (cur @ [s]) \<le> nat ov + 1)"
        using Cons.prems True by (simp add: group_tokens_def)
    qed (use Cons.prems in auto)
    then show ?thesis by (simp only: groups_loop.simps True if_True)
  next
    case False
    let ?G = "if cur \<noteq> [] then G @ [cur] else G"
    let ?c = "overlap_of ov cur @ [s]"
    have "\<forall>g\<in>set (groups_loop mt ov ss ?G ?c (sum_list (map token_count ?c))).
           g \<noteq> [] \<and> set g \<subseteq> S \<and> (mt < group_tokens g \<longrightarrow> length g \<le> nat ov + 1)"
    proof (rule Cons.IH)
      show "sum_list (map token_count ?c) = group_tokens ?c"
        by (simp add: group_tokens_def)
      show "\<forall>g\<in>set ?G. g \<noteq> [] \<and> set g \<subseteq> S \<and> (mt < group_tokens g \<longrightarrow> length g \<le> nat ov + 1)"
        using Cons.prems by auto
      have "length (overlap_of ov cur) \<le> nat ov"
        using Cons.prems(1) by (simp add: overlap_of_last_n length_last_n)
      moreover have "set (overlap_of ov cur) \<subseteq> set cur"
        using Cons.prems(1) by (simp add: overlap_of_last_n set_last_n)
      ultimately show "set ?c \<subseteq> S \<and> (mt < group_tokens ?c \<longrightarrow> length ?c \<le> nat ov + 1)"
        using Cons.prems by auto
    qed (use Cons.prems in auto)
    then show ?thesis by (simp only: groups_loop.simps False if_False)
  qed
qed

lemma chunk_groups_limit:
  assumes "0 \<le> ov" and "g \<in> set (chunk_groups ss mt ov)"
  shows "g \<noteq> [] \<and> set g \<subseteq> set ss \<and> (mt < group_tokens g \<longrightarrow> length g \<le> nat ov + 1)"
proof -
  have "\<forall>g\<in>set (groups_loop mt ov ss [] [] 0).
           g \<noteq> [] \<and> set g \<subseteq> set ss \<and> (mt < group_tokens g \<longrightarrow> length g \<le> nat ov + 1)"
    by (rule groups_loop_limit) (use assms in \<open>auto simp: group_tokens_def\<close>)
  with assms(2) show ?thesis by (simp add: chunk_groups_def)
qed

lemma successively_snoc:
  "successively R (xs @ [x, y]) \<longleftrightarrow> successively R (xs @ [x]) \<and> R x y"
  by (auto simp: successively_append_iff)

lemma successively_last_change:
  assumes "successively R (G @ [c])" and "\<And>g. R g c \<Longrightarrow> R g c'"
  shows "successively R (G @ [c'])"
proof (cases G rule: rev_cases)
  case Nil
  then show ?thesis by simp
next
  case (snoc G' g)
  with assms show ?thesis by (simp add: successively_snoc)
qed

lemma successively_nth:
  "successively R xs \<Longrightarrow> Suc i < length xs \<Longrightarrow> R (xs ! i) (xs ! Suc i)"
proof (induction R xs arbitrary: i rule: successively.induct)
  case (3 P x y xs)
  then show ?case by (cases i) auto
qed auto

lemma groups_loop_seeded:
  assumes "0 \<le> ov" and "len = group_tokens cur" and "cur \<noteq> []"
    and "successively (\<lambda>g h. \<exists>s rest. h = last_n (nat ov) g @ [s] @ rest
            \<and> mt < group_tokens g + token_count s) (G @ [cur])"
  shows "successively (\<lambda>g h. \<exists>s rest. h = last_n (nat ov) g @ [s] @ rest
            \<and> mt < group_tokens g + token_count s) (groups_loop mt ov ss G cur len)"
  using assms
proof (induction ss arbitrary: G cur len)
  case Nil
  then show ?case by simp
next
  case (Cons s ss)
  let ?R = "\<lambda>g h. \<exists>s rest. h = last_n (nat ov) g @ [s] @ rest
            \<and> mt < group_tokens g + token_count s"
  show ?case
  proof (cases "len + token_count s \<le> mt")
    case True
    have "successively ?R (groups_loop mt ov ss G (cur @ [s]) (len + token_count s))"
    proof (rule Cons.IH)
      show "len + token_count s = group_tokens (cur @ [s])"
        using Cons.prems(2) by (simp add: group_tokens_def)
      show "successively ?R (G @ [cur @ [s]])"
      proof (rule successively_last_change [OF Cons.prems(4)])
        fix g assume "?R g cur"
        then obtain t rest where "cur = last_n (nat ov) g @ [t] @ rest"
          and "mt < group_tokens g + token_count t" by blast
        then have "cur @ [s] = last_n (nat ov) g @ [t] @ (rest @ [s])
            \<and> mt < group_tokens g + token_count t" by simp
        then show "?R g (cur @ [s])" by blast
      qed
    qed (use Cons.prems in simp_all)
    then show ?thesis by (simp only: groups_loop.simps True if_True)
  next
    case False
    let ?c = "overlap_of ov cur @ [s]"
    have "successively ?R (groups_loop mt ov ss (G @ [cur]) ?c (sum_list (map token_count ?c)))"
    proof (rule Cons.IH)
      show "sum_list (map token_count ?c) = group_tokens ?c"
        by (simp add: group_tokens_def)
      have "?c = last_n (nat ov) cur @ [s] @ [] \<and> mt < group_tokens cur + token_count s"
        using Cons.prems(1,2) False by (simp add: overlap_of_last_n)
      then have "?R cur ?c" by blast
      with Cons.prems(4) show "successively ?R ((G @ [cur]) @ [?c])"
        by (simp add: successively_snoc)
    qed (use Cons.prems in simp_all)
    then show ?thesis using Cons.prems(3) by (simp only: groups_loop.simps False if_False if_True not_False_eq_True)
  qed
qed

lemma chunk_groups_seeded:
  assumes "0 \<le> ov"
  shows "successively (\<lambda>g h. \<exists>s rest. h = last_n (nat ov) g @ [s] @ rest
            \<and> mt < group_tokens g + token_count s) (chunk_groups ss mt ov)"
proof (cases ss)
  case Nil
  then show ?thesis by (simp add: chunk_groups_def)
next
  case (Cons s ss')
  let ?R = "\<lambda>g h. \<exists>s rest. h = last_n (nat ov) g @ [s] @ rest
            \<and> mt < group_tokens g + token_count s"
  have first: "groups_loop mt ov (s # ss') [] [] 0 = groups_loop mt ov ss' [] [s] (token_count s)"
    by (simp add: overlap_of_def slice_from_def)
  have "successively ?R (groups_loop mt ov ss' [] [s] (token_count s))"
    by (rule groups_loop_seeded) (use assms in \<open>simp_all add: group_tokens_def\<close>)
  with first Cons show ?thesis by (simp add: chunk_groups_def)
qed

lemma str_join_append:
  "xs \<noteq> [] \<Longrightarrow> ys \<noteq> [] \<Longrightarrow> str_join sep (xs @ ys) = str_join sep xs @ sep @ str_join sep ys"
  by (induction sep xs rule: str_join.induct) (auto simp: neq_Nil_conv)

lemma str_join_prefix: "prefix (str_join sep xs) (str_join sep (xs @ ys))"
proof (cases "xs = [] \<or> ys = []")
  case True
  then show ?thesis by auto
next
  case False
  then show ?thesis by (simp add: str_join_append)
qed

lemmas example_simps = example_tokenize_def example_text_def token_count_def str_split_def
  isspace_def overlap_of_def slice_from_def group_tokens_def last_n_def

lemma example_chunks_6_2:
  "chunk_text example_tokenize example_text 6 2 =
     [''Alpha is first. Beta is second.'',
      ''Alpha is first. Beta is second. Gamma is third.'']"
  by (simp add: chunk_text_def example_simps)

lemma example_groups_6_2:
  "chunk_groups (example_tokenize example_text) 6 2 =
     [[''Alpha is first.'', ''Beta is second.''],
      [''Alpha is first.'', ''Beta is second.'', ''Gamma is third.'']]"
  by (simp add: chunk_groups_def example_simps)

lemma example_groups_3_1:
  "chunk_groups (example_tokenize example_text) 3 1 =
     [[''Alpha is first.''], [''Alpha is first.'', ''Beta is second.''],
      [''Beta is second.'', ''Gamma is third.'']]"
  by (simp add: chunk_groups_def example_simps)

lemma example_chunks_3_1:
  "chunk_text example_tokenize example_text 3 1 =
     [''Alpha is first.'', ''Alpha is first. Beta is second.'',
      ''Beta is second. Gamma is third.'']"
  by (simp add: chunk_text_def example_simps)

lemma sublist_str_join: "s \<in> set g \<Longrightarrow> sublist s (str_join sep g)"
proof (induction sep g rule: str_join.induct)
  case (1 sep)
  then show ?case by simp
next
  case (2 sep x)
  then show ?case by simp
next
  case (3 sep x y ys)
  show ?case
  proof (cases "s = x")
    case True
    then show ?thesis by simp
  next
    case False
    with 3 have "sublist s (str_join sep (y # ys))" by simp
    then obtain ps ss where "str_join sep (y # ys) = ps @ s @ ss" by (auto simp: sublist_def)
    then have "str_join sep (x # y # ys) = (x @ sep @ ps) @ s @ ss" by simp
    then show ?thesis unfolding sublist_def by blast
  qed
qed

text \<open>
  Claim C6. The chunks are the joined sentence lists of \<open>chunk_groups\<close>; the
  sentences of the input, counted with multiplicity, all occur in those lists (the
  overlap repeats sentences and none is dropped); and every sentence of the input
  stands, as it is, inside one of the returned chunks.
\<close>

theorem chunk_text_keeps_sentences:
  "chunk_text tok text mt ov = map (str_join '' '') (chunk_groups (tok text) mt ov) \<and>
   mset (tok text) \<subseteq># mset (concat (chunk_groups (tok text) mt ov)) \<and>
   (\<forall>s\<in>set (tok text). \<exists>c\<in>set (chunk_text tok text mt ov). sublist s c)"
proof (intro conjI ballI)
  show "chunk_text tok text mt ov = map (str_join '' '') (chunk_groups (tok text) mt ov)"
    by (rule chunk_text_groups)
  show incl: "mset (tok text) \<subseteq># mset (concat (chunk_groups (tok text) mt ov))"
    using groups_loop_mset [of "[]" "[]" "tok text" mt ov 0] by (simp add: chunk_groups_def)
  fix s
  assume "s \<in> set (tok text)"
  then have "s \<in># mset (tok text)" by simp
  with incl have "s \<in># mset (concat (chunk_groups (tok text) mt ov))"
    by (rule mset_subset_eqD)
  then obtain g where g: "g \<in> set (chunk_groups (tok text) mt ov)" and s: "s \<in> set g"
    by auto
  from g have "str_join '' '' g \<in> set (chunk_text tok text mt ov)"
    by (simp add: chunk_text_groups)
  moreover from s have "sublist s (str_join '' '' g)" by (rule sublist_str_join)
  ultimately show "\<exists>c\<in>set (chunk_text tok text mt ov). sublist s c" by blast
qed

text \<open>
  The example text segmented with \<open>max_tokens = 3\<close> and \<open>overlap_sentences = 1\<close>: the
  three chunks, and each of the three sentences inside one of them.
\<close>

theorem chunk_text_keeps_sentences_witness:
  "chunk_text example_tokenize example_text 3 1 =
     [''Alpha is first.'', ''Alpha is first. Beta is second.'',
      ''Beta is second. Gamma is third.''] \<and>
   mset [''Alpha is first.'', ''Beta is second.'', ''Gamma is third.''] \<subseteq>#
     mset (concat (chunk_groups (example_tokenize example_text) 3 1)) \<and>
   (\<exists>c\<in>set (chunk_text example_tokenize example_text 3 1). sublist ''Alpha is first.'' c) \<and>
   (\<exists>c\<in>set (chunk_text example_tokenize example_text 3 1). sublist ''Beta is second.'' c) \<and>
   (\<exists>c\<in>set (chunk_text example_tokenize example_text 3 1). sublist ''Gamma is third.'' c)"
proof -
  have toks: "example_tokenize example_text =
      [''Alpha is first.'', ''Beta is second.'', ''Gamma is third.'']"
    by (simp add: example_tokenize_def)
  from chunk_text_keeps_sentences [of example_tokenize example_text 3 1]
  have incl: "mset (example_tokenize example_text) \<subseteq>#
      mset (concat (chunk_groups (example_tokenize example_text) 3 1))"
    and inside: "\<forall>s\<in>set (example_tokenize example_text).
      \<exists>c\<in>set (chunk_text example_tokenize example_text 3 1). sublist s c"
    by blast+
  from inside have
    "\<exists>c\<in>set (chunk_text example_tokenize example_text 3 1). sublist ''Alpha is first.'' c"
    "\<exists>c\<in>set (chunk_text example_tokenize example_text 3 1). sublist ''Beta is second.'' c"
    "\<exists>c\<in>set (chunk_text example_tokenize example_text 3 1). sublist ''Gamma is third.'' c"
    unfolding toks by simp_all
  moreover from incl have
    "mset [''Alpha is first.'', ''Beta is second.'', ''Gamma is third.''] \<subseteq>#
     mset (concat (chunk_groups (example_tokenize example_text) 3 1))"
    unfolding toks .
  ultimately show ?thesis using example_chunks_3_1 by blast
qed

text \<open>
  Claim C3 as stated fails: with \<open>max_tokens = 6\<close> and \<open>overlap_sentences = 2\<close> the third
  sentence of the example overflows the first chunk, and the chunk opened for it holds
  the two overlap sentences and the third one, nine tokens in three sentences.
\<close>

theorem chunk_exceeds_limit_counterexample:
  "chunk_text example_tokenize example_text 6 2 =
     [''Alpha is first. Beta is second.'',
      ''Alpha is first. Beta is second. Gamma is third.''] \<and>
   chunk_groups (example_tokenize example_text) 6 2 =
     [[''Alpha is first.'', ''Beta is second.''],
      [''Alpha is first.'', ''Beta is second.'', ''Gamma is third.'']] \<and>
   token_count ''Alpha is first. Beta is second. Gamma is third.'' = 9 \<and>
   ''Alpha is first. Beta is second. Gamma is third.'' \<notin> set (example_tokenize example_text)"
  by (simp add: example_chunks_6_2 example_groups_6_2) (simp add: example_simps)

text \<open>
  Claim C3, amended. For \<open>overlap_sentences \<ge> 0\<close>, a chunk with more than \<open>max_tokens\<close>
  tokens is made of at most \<open>overlap_sentences + 1\<close> sentences of the input (the overlap
  taken from the closed chunk and the sentence that overflowed it); with
  \<open>overlap_sentences = 0\<close> it is a single sentence of the input.
\<close>

theorem chunk_over_limit_is_seed:
  assumes "0 \<le> ov" and "c \<in> set (chunk_text tok text mt ov)" and "mt < token_count c"
  shows "(\<exists>g. g \<in> set (chunk_groups (tok text) mt ov) \<and> c = str_join '' '' g \<and> g \<noteq> [] \<and>
              set g \<subseteq> set (tok text) \<and> length g \<le> nat ov + 1) \<and>
         (ov = 0 \<longrightarrow> c \<in> set (tok text))"
proof -
  from assms(2) obtain g where g: "g \<in> set (chunk_groups (tok text) mt ov)"
    and c: "c = str_join '' '' g"
    by (auto simp: chunk_text_groups)
  from assms(3) c have "mt < group_tokens g" by (simp add: token_count_join)
  with chunk_groups_limit [OF assms(1) g]
  have lim: "g \<noteq> []" "set g \<subseteq> set (tok text)" "length g \<le> nat ov + 1" by auto
  have "c \<in> set (tok text)" if "ov = 0"
  proof -
    from that lim obtain s where "g = [s]" by (cases g) auto
    with lim c show ?thesis by simp
  qed
  with g c lim show ?thesis by blast
qed

text \<open>The second chunk of the example above: nine tokens, three sentences.\<close>

theorem chunk_over_limit_is_seed_witness:
  "(0::int) \<le> 2 \<and>
   ''Alpha is first. Beta is second. Gamma is third.''
      \<in> set (chunk_text example_tokenize example_text 6 2) \<and>
   6 < token_count ''Alpha is first. Beta is second. Gamma is third.'' \<and>
   (\<exists>g. g \<in> set (chunk_groups (example_tokenize example_text) 6 2) \<and>
        ''Alpha is first. Beta is second. Gamma is third.'' = str_join '' '' g \<and>
        length g \<le> 3)"
proof -
  have a: "''Alpha is first. Beta is second. Gamma is third.''
      \<in> set (chunk_text example_tokenize example_text 6 2)"
    by (simp add: example_chunks_6_2)
  have b: "6 < token_count ''Alpha is first. Beta is second. Gamma is third.''"
    by (simp add: example_simps)
  have ov: "(0::int) \<le> 2" by simp
  from chunk_over_limit_is_seed [OF ov a b] a b show ?thesis by auto
qed

text \<open>
  Claim C5. For \<open>overlap_sentences \<ge> 0\<close>, every chunk after the first consists of the
  last \<open>overlap_sentences\<close> sentences of the chunk before it, then the sentence that did
  not fit into that chunk, then whatever was added later; as strings, the chunk begins
  with the joined overlap.
\<close>

theorem overflow_seeds_next_chunk:
  assumes "0 \<le> ov" and "Suc i < length (chunk_groups (tok text) mt ov)"
  shows "\<exists>s rest.
           chunk_groups (tok text) mt ov ! Suc i =
             last_n (nat ov) (chunk_groups (tok text) mt ov ! i) @ [s] @ rest \<and>
           mt < group_tokens (chunk_groups (tok text) mt ov ! i) + token_count s \<and>
           chunk_text tok text mt ov ! i = str_join '' '' (chunk_groups (tok text) mt ov ! i) \<and>
           chunk_text tok text mt ov ! Suc i =
             str_join '' '' (chunk_groups (tok text) mt ov ! Suc i) \<and>
           prefix (str_join '' '' (last_n (nat ov) (chunk_groups (tok text) mt ov ! i)))
             (chunk_text tok text mt ov ! Suc i)"
proof -
  let ?gs = "chunk_groups (tok text) mt ov"
  from successively_nth [OF chunk_groups_seeded [OF assms(1)] assms(2)]
  obtain s rest where seed: "?gs ! Suc i = last_n (nat ov) (?gs ! i) @ [s] @ rest"
    and over: "mt < group_tokens (?gs ! i) + token_count s"
    by blast
  have ci: "chunk_text tok text mt ov ! i = str_join '' '' (?gs ! i)"
    using assms(2) by (simp add: chunk_text_groups)
  have cs: "chunk_text tok text mt ov ! Suc i = str_join '' '' (?gs ! Suc i)"
    using assms(2) by (simp add: chunk_text_groups)
  have "prefix (str_join '' '' (last_n (nat ov) (?gs ! i))) (str_join '' '' (?gs ! Suc i))"
    unfolding seed by (rule str_join_prefix)
  with seed over ci cs show ?thesis by (metis (no_types))
qed

text \<open>
  With \<open>max_tokens = 3\<close> and \<open>overlap_sentences = 1\<close> the second chunk of the example
  begins with the only sentence of the first.
\<close>

theorem overflow_seeds_next_chunk_witness:
  "(0::int) \<le> 1 \<and> Suc 0 < length (chunk_groups (example_tokenize example_text) 3 1) \<and>
   chunk_text example_tokenize example_text 3 1 ! 0 = ''Alpha is first.'' \<and>
   prefix ''Alpha is first.'' (chunk_text example_tokenize example_text 3 1 ! Suc 0)"
proof -
  have len: "Suc 0 < length (chunk_groups (example_tokenize example_text) 3 1)"
    by (simp add: example_groups_3_1)
  have ov: "(0::int) \<le> 1" by simp
  from overflow_seeds_next_chunk [of 1 0 example_tokenize example_text 3, OF ov len]
  have "prefix (str_join '' '' (last_n (nat 1) (chunk_groups (example_tokenize example_text) 3 1 ! 0)))
             (chunk_text example_tokenize example_text 3 1 ! Suc 0)" by blast
  then have "prefix ''Alpha is first.'' (chunk_text example_tokenize example_text 3 1 ! Suc 0)"
    by (simp add: example_groups_3_1 last_n_def)
  with len show ?thesis by (simp add: example_chunks_3_1)
qed

section \<open>Properties of the rounding\<close>

lemma round_half_even_floor: "\<lfloor>y\<rfloor> \<le> round_half_even y" "round_half_even y \<le> \<lfloor>y\<rfloor> + 1"
  by (simp_all add: round_half_even_def)

lemma round_half_even_of_int: "round_half_even (of_int n) = n"
  by (simp add: round_half_even_def)

lemma round_half_even_ge:
  assumes "of_int n \<le> y"
  shows "n \<le> round_half_even y"
proof -
  from assms have "n \<le> \<lfloor>y\<rfloor>" by (simp add: le_floor_iff)
  with round_half_even_floor(1) [of y] show ?thesis by simp
qed

lemma powr_is_powi: "2 powr of_int k = (2::real) powi k"
  by (simp add: powr_real_of_int')

lemma round_half_even_le:
  assumes "y \<le> of_int n"
  shows "round_half_even y \<le> n"
proof (cases "y = of_int n")
  case True
  then show ?thesis by (simp add: round_half_even_of_int)
next
  case False
  with assms have "y < of_int n" by simp
  then have "\<lfloor>y\<rfloor> < n" by (simp add: floor_less_iff)
  with round_half_even_floor(2) [of y] show ?thesis by simp
qed

lemma round_half_even_mono:
  assumes "y \<le> z"
  shows "round_half_even y \<le> round_half_even z"
proof (cases "\<lfloor>y\<rfloor> = \<lfloor>z\<rfloor>")
  case False
  with assms have "\<lfloor>y\<rfloor> < \<lfloor>z\<rfloor>" by (simp add: floor_mono order.strict_iff_order)
  with round_half_even_floor(2) [of y] round_half_even_floor(1) [of z] show ?thesis by simp
next
  case True
  with assms have "y - of_int \<lfloor>y\<rfloor> \<le> z - of_int \<lfloor>z\<rfloor>" by simp
  with True show ?thesis by (simp add: round_half_even_def)
qed

lemma ulp_exponent_bounds:
  assumes "x \<noteq> 0"
  shows "2 ^ 52 \<le> \<bar>x\<bar> / 2 powi ulp_exponent x" "\<bar>x\<bar> / 2 powi ulp_exponent x < 2 ^ 53"
proof -
  let ?n = "\<lfloor>log 2 \<bar>x\<bar>\<rfloor>"
  from assms have pos: "0 < \<bar>x\<bar>" by simp
  have "of_int ?n \<le> log 2 \<bar>x\<bar>" by simp
  then have "2 powr of_int ?n \<le> 2 powr log 2 \<bar>x\<bar>" by (simp only: powr_le_cancel_iff) 
  with pos have lo: "2 powi ?n \<le> \<bar>x\<bar>" by (simp add: powr_is_powi)
  have "log 2 \<bar>x\<bar> < of_int (?n + 1)" by linarith
  then have "2 powr log 2 \<bar>x\<bar> < 2 powr of_int (?n + 1)" by (simp only: powr_less_cancel_iff)
  with pos have hi: "\<bar>x\<bar> < 2 powi (?n + 1)" by (simp only: powr_is_powi) simp
  have e: "(2::real) powi ?n = 2 ^ 52 * 2 powi ulp_exponent x"
    "(2::real) powi (?n + 1) = 2 ^ 53 * 2 powi ulp_exponent x"
    by (simp_all add: ulp_exponent_def power_int_diff power_int_add)
  have p: "(0::real) < 2 powi ulp_exponent x" by simp
  from lo e(1) p show "2 ^ 52 \<le> \<bar>x\<bar> / 2 powi ulp_exponent x"
    by (simp add: pos_le_divide_eq)
  from hi e(2) p show "\<bar>x\<bar> / 2 powi ulp_exponent x < 2 ^ 53"
    by (simp add: pos_divide_less_eq)
qed

lemma ulp_exponent_unique:
  assumes "x \<noteq> 0" and "2 ^ 52 \<le> \<bar>x\<bar> / 2 powi e" and "\<bar>x\<bar> / 2 powi e < 2 ^ 53"
  shows "ulp_exponent x = e"
proof -
  from assms(1) have pos: "0 < \<bar>x\<bar>" by simp
  have p: "(0::real) < 2 powi e" by simp
  from assms(2) p have "2 ^ 52 * 2 powi e \<le> \<bar>x\<bar>" by (simp add: pos_le_divide_eq)
  then have "2 powi (e + 52) \<le> \<bar>x\<bar>" by (simp add: power_int_add mult.commute)
  then have "2 powr of_int (e + 52) \<le> \<bar>x\<bar>" by (simp only: powr_is_powi)
  with pos have lo: "of_int (e + 52) \<le> log 2 \<bar>x\<bar>" by (simp add: le_log_iff)
  from assms(3) p have "\<bar>x\<bar> < 2 ^ 53 * 2 powi e" by (simp add: pos_divide_less_eq)
  then have "\<bar>x\<bar> < 2 powi (e + 53)" by (simp add: power_int_add mult.commute)
  then have "\<bar>x\<bar> < 2 powr of_int (e + 53)" by (simp only: powr_is_powi)
  with pos have hi: "log 2 \<bar>x\<bar> < of_int (e + 53)" by (simp add: log_less_iff)
  from lo hi have "\<lfloor>log 2 \<bar>x\<bar>\<rfloor> = e + 52" by (simp add: floor_unique)
  then show ?thesis by (simp add: ulp_exponent_def)
qed

lemma float64_eval:
  assumes "x \<noteq> 0" and "2 ^ 52 \<le> \<bar>x\<bar> / 2 powi e" and "\<bar>x\<bar> / 2 powi e < 2 ^ 53"
  shows "float64 x = of_int (round_half_even (x / 2 powi e)) * 2 powi e"
  using assms ulp_exponent_unique [OF assms] by (simp add: float64_def)

lemma ulp_exponent_mono:
  assumes "x \<noteq> 0" and "\<bar>x\<bar> \<le> \<bar>y\<bar>"
  shows "ulp_exponent x \<le> ulp_exponent y"
proof -
  from assms have "0 < \<bar>x\<bar>" "0 < \<bar>y\<bar>" by simp_all
  with assms(2) have "log 2 \<bar>x\<bar> \<le> log 2 \<bar>y\<bar>" by simp
  then have "\<lfloor>log 2 \<bar>x\<bar>\<rfloor> \<le> \<lfloor>log 2 \<bar>y\<bar>\<rfloor>" by (rule floor_mono)
  then show ?thesis by (simp add: ulp_exponent_def)
qed

lemma float64_pos_bounds:
  assumes "0 < x"
  shows "2 ^ 52 * 2 powi ulp_exponent x \<le> float64 x"
    and "float64 x \<le> 2 ^ 53 * 2 powi ulp_exponent x"
proof -
  let ?e = "ulp_exponent x"
  from assms have nz: "x \<noteq> 0" by simp
  from ulp_exponent_bounds [OF nz] assms
  have lo: "of_int (2 ^ 52) \<le> x / 2 powi ?e" and hi: "x / 2 powi ?e \<le> of_int (2 ^ 53)"
    by simp_all
  have p: "(0::real) \<le> 2 powi ?e" by simp
  have "(2 ^ 52 :: int) \<le> round_half_even (x / 2 powi ?e)"
    by (rule round_half_even_ge [OF lo])
  then have "(2 ^ 52 :: real) \<le> of_int (round_half_even (x / 2 powi ?e))"
    by (metis of_int_le_iff of_int_numeral of_int_power)
  then show "2 ^ 52 * 2 powi ?e \<le> float64 x"
    using nz p by (simp add: float64_def mult_right_mono)
  have "round_half_even (x / 2 powi ?e) \<le> (2 ^ 53 :: int)"
    by (rule round_half_even_le [OF hi])
  then have "of_int (round_half_even (x / 2 powi ?e)) \<le> (2 ^ 53 :: real)"
    by (metis of_int_le_iff of_int_numeral of_int_power)
  then show "float64 x \<le> 2 ^ 53 * 2 powi ?e"
    using nz p by (simp add: float64_def mult_right_mono)
qed

lemma float64_neg_bounds:
  assumes "x < 0"
  shows "- (2 ^ 53 * 2 powi ulp_exponent x) \<le> float64 x"
    and "float64 x \<le> - (2 ^ 52 * 2 powi ulp_exponent x)"
proof -
  let ?e = "ulp_exponent x"
  from assms have nz: "x \<noteq> 0" by simp
  have pe: "(0::real) < 2 powi ?e" by simp
  from assms have ab: "\<bar>x\<bar> / 2 powi ?e = - (x / 2 powi ?e)" by simp
  from ulp_exponent_bounds [OF nz] ab
  have lo: "of_int (- (2 ^ 53)) \<le> x / 2 powi ?e" and hi: "x / 2 powi ?e \<le> of_int (- (2 ^ 52))"
    by simp_all
  have p: "(0::real) \<le> 2 powi ?e" by simp
  have "- (2 ^ 53 :: int) \<le> round_half_even (x / 2 powi ?e)"
    by (rule round_half_even_ge [OF lo])
  then have "- (2 ^ 53 :: real) \<le> of_int (round_half_even (x / 2 powi ?e))"
    by (metis of_int_le_iff of_int_numeral of_int_power of_int_minus)
  then have "- (2 ^ 53) * 2 powi ?e \<le> (of_int (round_half_even (x / 2 powi ?e)) :: real) * 2 powi ?e"
    using p by (rule mult_right_mono)
  then show "- (2 ^ 53 * 2 powi ?e) \<le> float64 x"
    using nz by (simp add: float64_def)
  have "round_half_even (x / 2 powi ?e) \<le> - (2 ^ 52 :: int)"
    by (rule round_half_even_le [OF hi])
  then have "of_int (round_half_even (x / 2 powi ?e)) \<le> - (2 ^ 52 :: real)"
    by (metis of_int_le_iff of_int_numeral of_int_power of_int_minus)
  then have "(of_int (round_half_even (x / 2 powi ?e)) :: real) * 2 powi ?e \<le> - (2 ^ 52) * 2 powi ?e"
    using p by (rule mult_right_mono)
  then show "float64 x \<le> - (2 ^ 52 * 2 powi ?e)"
    using nz by (simp add: float64_def)
qed

lemma float64_same_exponent:
  assumes "x \<noteq> 0" and "y \<noteq> 0" and "x \<le> y" and "ulp_exponent x = ulp_exponent y"
  shows "float64 x \<le> float64 y"
proof -
  let ?e = "ulp_exponent y"
  have p: "(0::real) < 2 powi ?e" by simp
  from assms(3) p have "x / 2 powi ?e \<le> y / 2 powi ?e" by (simp add: divide_right_mono)
  then have "round_half_even (x / 2 powi ?e) \<le> round_half_even (y / 2 powi ?e)"
    by (rule round_half_even_mono)
  then have "(of_int (round_half_even (x / 2 powi ?e)) :: real) \<le>
             of_int (round_half_even (y / 2 powi ?e))" by simp
  then have "(of_int (round_half_even (x / 2 powi ?e)) :: real) * 2 powi ?e \<le>
             of_int (round_half_even (y / 2 powi ?e)) * 2 powi ?e"
    using p by (simp add: mult_right_mono)
  with assms show ?thesis by (simp add: float64_def)
qed

lemma powi_step:
  assumes "a < b"
  shows "(2 ^ 53 :: real) * 2 powi a \<le> 2 ^ 52 * 2 powi b"
proof -
  from assms have "a + 1 \<le> b" by simp
  then have "(2::real) powi (a + 1) \<le> 2 powi b" by (simp add: power_int_increasing)
  then have "(2 ^ 52 :: real) * 2 powi (a + 1) \<le> 2 ^ 52 * 2 powi b" by simp
  moreover have "(2 ^ 52 :: real) * 2 powi (a + 1) = 2 ^ 53 * 2 powi a"
    by (simp add: power_int_add)
  ultimately show ?thesis by simp
qed

lemma float64_mono:
  assumes "x \<le> y"
  shows "float64 x \<le> float64 y"
proof -
  have zero: "float64 0 = 0" by (simp add: float64_def)
  have pos: "0 \<le> float64 z" if "0 < z" for z
  proof -
    have "(0::real) \<le> 2 ^ 52 * 2 powi ulp_exponent z" by simp
    with float64_pos_bounds(1) [OF that] show ?thesis by linarith
  qed
  have neg: "float64 z \<le> 0" if "z < 0" for z
  proof -
    have "(0::real) \<le> 2 ^ 52 * 2 powi ulp_exponent z" by simp
    with float64_neg_bounds(2) [OF that] show ?thesis by linarith
  qed
  consider "x = 0" | "y = 0" "x < 0" | "x < 0" "0 < y" | "0 < x" | "y < 0"
    using assms by linarith
  then show ?thesis
  proof cases
    case 1
    with assms zero pos [of y] show ?thesis by (cases "y = 0") auto
  next
    case 2
    with zero neg [of x] show ?thesis by simp
  next
    case 3
    with pos [of y] neg [of x] show ?thesis by linarith
  next
    case 4
    with assms have y: "0 < y" by simp
    from 4 y assms have "ulp_exponent x \<le> ulp_exponent y"
      by (intro ulp_exponent_mono) simp_all
    then consider "ulp_exponent x = ulp_exponent y" | "ulp_exponent x < ulp_exponent y"
      by linarith
    then show ?thesis
    proof cases
      case 1
      with 4 y assms show ?thesis by (intro float64_same_exponent) simp_all
    next
      case 2
      from float64_pos_bounds(2) [OF 4] powi_step [OF 2] float64_pos_bounds(1) [OF y]
      show ?thesis by linarith
    qed
  next
    case 5
    with assms have x: "x < 0" by simp
    from 5 x assms have "ulp_exponent y \<le> ulp_exponent x"
      by (intro ulp_exponent_mono) simp_all
    then consider "ulp_exponent x = ulp_exponent y" | "ulp_exponent y < ulp_exponent x"
      by linarith
    then show ?thesis
    proof cases
      case 1
      with 5 x assms show ?thesis by (intro float64_same_exponent) simp_all
    next
      case 2
      from float64_neg_bounds(2) [OF x] powi_step [OF 2] float64_neg_bounds(1) [OF 5]
      show ?thesis by linarith
    qed
  qed
qed

lemma float64_zero: "float64 0 = 0"
  by (simp add: float64_def)

lemma float64_exact:
  assumes "2 ^ 52 \<le> \<bar>m\<bar>" and "\<bar>m\<bar> < 2 ^ 53"
  shows "float64 (of_int m * 2 powi e) = of_int m * 2 powi e"
proof -
  have nz: "(of_int m * 2 powi e :: real) \<noteq> 0" using assms by auto
  have q: "\<bar>of_int m * 2 powi e :: real\<bar> / 2 powi e = of_int \<bar>m\<bar>"
    by (simp add: abs_mult)
  have a: "2 ^ 52 \<le> \<bar>of_int m * 2 powi e :: real\<bar> / 2 powi e"
    unfolding q using assms(1) by (metis of_int_le_iff of_int_numeral of_int_power)
  have b: "\<bar>of_int m * 2 powi e :: real\<bar> / 2 powi e < 2 ^ 53"
    unfolding q using assms(2) by (metis of_int_less_iff of_int_numeral of_int_power)
  have "(of_int m * 2 powi e :: real) / 2 powi e = of_int m" by simp
  with float64_eval [OF nz a b] show ?thesis by (simp add: round_half_even_of_int)
qed

text \<open>The rounding changes a number by at most one part in \<open>2 ^ 53\<close>.\<close>

lemma round_half_even_error: "\<bar>of_int (round_half_even y) - y\<bar> \<le> 1 / 2"
proof -
  define d where "d = y - of_int \<lfloor>y\<rfloor>"
  have d: "0 \<le> d" "d < 1" unfolding d_def by linarith+
  have y: "y = of_int \<lfloor>y\<rfloor> + d" by (simp add: d_def)
  consider "d < 1 / 2" | "1 / 2 < d" | "d = 1 / 2" by linarith
  then show ?thesis
  proof cases
    case 1
    then have "round_half_even y = \<lfloor>y\<rfloor>" by (simp add: round_half_even_def d_def)
    with 1 d show ?thesis by (simp add: d_def)
  next
    case 2
    then have "round_half_even y = \<lfloor>y\<rfloor> + 1" by (simp add: round_half_even_def d_def)
    with 2 d show ?thesis by (simp add: d_def)
  next
    case 3
    then have "round_half_even y = \<lfloor>y\<rfloor> \<or> round_half_even y = \<lfloor>y\<rfloor> + 1"
      by (simp add: round_half_even_def d_def)
    with 3 show ?thesis by (auto simp add: d_def)
  qed
qed

lemma float64_error: "\<bar>float64 x - x\<bar> \<le> \<bar>x\<bar> / 2 ^ 53"
proof (cases "x = 0")
  case True
  then show ?thesis by (simp add: float64_def)
next
  case False
  let ?e = "ulp_exponent x"
  let ?y = "x / 2 powi ?e"
  have p: "(0::real) < 2 powi ?e" by simp
  have x: "x = ?y * 2 powi ?e" by simp
  have "float64 x - x = (of_int (round_half_even ?y) - ?y) * 2 powi ?e"
    using False by (simp add: float64_def algebra_simps)
  then have "\<bar>float64 x - x\<bar> = \<bar>of_int (round_half_even ?y) - ?y\<bar> * 2 powi ?e"
    by (simp add: abs_mult)
  also have "\<dots> \<le> 1 / 2 * 2 powi ?e"
    using round_half_even_error [of ?y] p by (simp add: mult_right_mono)
  also have "\<dots> \<le> \<bar>x\<bar> / 2 ^ 53"
  proof -
    from ulp_exponent_bounds(1) [OF False] p have "2 ^ 52 * 2 powi ?e \<le> \<bar>x\<bar>"
      by (simp add: pos_le_divide_eq)
    then show ?thesis by simp
  qed
  finally show ?thesis .
qed

lemma rounded_sum_error:
  fixes a b fa fb c u :: real
  assumes "\<bar>fa - a\<bar> \<le> u * \<bar>a\<bar>" and "\<bar>fb - b\<bar> \<le> u * \<bar>b\<bar>"
    and "\<bar>c - (fa + fb)\<bar> \<le> u * \<bar>fa + fb\<bar>" and "0 \<le> u" and "u \<le> 1"
  shows "\<bar>c - (a + b)\<bar> \<le> 3 * u * (\<bar>a\<bar> + \<bar>b\<bar>)"
proof -
  define ua where "ua = u * \<bar>a\<bar>"
  define ub where "ub = u * \<bar>b\<bar>"
  have nn: "0 \<le> ua" "0 \<le> ub" using assms(4) by (simp_all add: ua_def ub_def)
  from assms(1,2) have s: "\<bar>fa + fb\<bar> \<le> \<bar>a\<bar> + \<bar>b\<bar> + ua + ub"
    unfolding ua_def ub_def by linarith
  have "u * \<bar>fa + fb\<bar> \<le> u * (\<bar>a\<bar> + \<bar>b\<bar> + ua + ub)"
    using s assms(4) by (rule mult_left_mono)
  also have "\<dots> = ua + ub + u * ua + u * ub" by (simp add: algebra_simps ua_def ub_def)
  also have "\<dots> \<le> ua + ub + ua + ub"
  proof -
    have "u * ua \<le> 1 * ua" by (rule mult_right_mono [OF assms(5) nn(1)])
    moreover have "u * ub \<le> 1 * ub" by (rule mult_right_mono [OF assms(5) nn(2)])
    ultimately show ?thesis by simp
  qed
  finally have "u * \<bar>fa + fb\<bar> \<le> 2 * ua + 2 * ub" by simp
  with assms(1,2,3) have "\<bar>c - (a + b)\<bar> \<le> 3 * ua + 3 * ub"
    unfolding ua_def ub_def by linarith
  then show ?thesis by (simp add: ua_def ub_def algebra_simps)
qed

text \<open>The values of the rounding that the examples use.\<close>

lemma float64_weight_primary: "float64 weight_primary = weight_primary"
  using float64_exact [of 6305039478318694 "- 53"] by (simp add: weight_primary_def)

lemma float64_weight_enhanced: "float64 weight_enhanced = weight_enhanced"
  using float64_exact [of 5404319552844595 "- 54"] by (simp add: weight_enhanced_def)

lemma float64_weights_sum: "float64 (weight_primary + weight_enhanced) = 1"
  using float64_eval [of "weight_primary + weight_enhanced" "- 53"]
  by (simp add: weight_primary_def weight_enhanced_def round_half_even_def)

lemma float64_tiny_60: "float64 (1 / 2 ^ 60 * weight_primary) = 6305039478318694 / 2 ^ 113"
  using float64_exact [of 6305039478318694 "- 113"] by (simp add: weight_primary_def)

lemma float64_tiny_59: "float64 (1 / 2 ^ 59 * weight_primary) = 6305039478318694 / 2 ^ 112"
  using float64_exact [of 6305039478318694 "- 112"] by (simp add: weight_primary_def)

lemma float64_absorbed_60:
  "float64 (6305039478318694 / 2 ^ 113 + weight_enhanced) = weight_enhanced"
  using float64_eval [of "6305039478318694 / 2 ^ 113 + weight_enhanced" "- 54"]
  by (simp add: weight_enhanced_def round_half_even_def)

lemma float64_absorbed_59:
  "float64 (6305039478318694 / 2 ^ 112 + weight_enhanced) = weight_enhanced"
  using float64_eval [of "6305039478318694 / 2 ^ 112 + weight_enhanced" "- 54"]
  by (simp add: weight_enhanced_def round_half_even_def)

lemma float64_three_eighths:
  "float64 (3 / 8 * weight_primary) = 4728779608739020 / 2 ^ 54"
  using float64_eval [of "3 / 8 * weight_primary" "- 54"]
  by (simp add: weight_primary_def round_half_even_def)

lemma float64_three_eighths_again:
  "float64 (4728779608739020 / 2 ^ 54) = 4728779608739020 / 2 ^ 54"
  using float64_exact [of 4728779608739020 "- 54"] by simp

lemma float64_seven_eighths:
  "float64 (7 / 8 * weight_enhanced) = 4728779608739021 / 2 ^ 54"
  using float64_eval [of "7 / 8 * weight_enhanced" "- 54"]
  by (simp add: weight_enhanced_def round_half_even_def)

lemma float64_seven_eighths_again:
  "float64 (4728779608739021 / 2 ^ 54) = 4728779608739021 / 2 ^ 54"
  using float64_exact [of 4728779608739021 "- 54"] by simp

lemma combined_tiny_60:
  "float64 (float64 (1 / 2 ^ 60 * weight_primary) + float64 (1 * weight_enhanced)) =
     weight_enhanced"
  by (simp only: float64_tiny_60 mult_1 float64_weight_enhanced float64_absorbed_60)

lemma combined_tiny_59:
  "float64 (float64 (1 / 2 ^ 59 * weight_primary) + float64 (1 * weight_enhanced)) =
     weight_enhanced"
  by (simp only: float64_tiny_59 mult_1 float64_weight_enhanced float64_absorbed_59)

lemma combined_three_eighths:
  "float64 (float64 (3 / 8 * weight_primary) + float64 (0 * weight_enhanced)) =
     4728779608739020 / 2 ^ 54"
  by (simp only: float64_three_eighths mult_zero_left float64_zero add_0_right
      float64_three_eighths_again)

lemma combined_seven_eighths:
  "float64 (float64 (0 * weight_primary) + float64 (7 / 8 * weight_enhanced)) =
     4728779608739021 / 2 ^ 54"
  by (simp only: float64_seven_eighths mult_zero_left float64_zero add_0_left
      float64_seven_eighths_again)

lemma weights_order: "weight_enhanced \<le> weight_primary" "\<not> weight_primary \<le> weight_enhanced"
  by (simp_all add: weight_primary_def weight_enhanced_def)

section \<open>Properties of the document store and of the ensemble search\<close>

lemma chunk_loop_Nil_iff:
  "chunk_loop mt ov ss cs cur len = [] \<longleftrightarrow> ss = [] \<and> cs = [] \<and> cur = []"
  by (induction ss arbitrary: cs cur len) auto

lemma chunk_text_Nil_iff: "chunk_text tok text mt ov = [] \<longleftrightarrow> tok text = []"
  by (simp add: chunk_text_def chunk_loop_Nil_iff)

lemma endswith_prefix: "endswith s sfx = prefix (rev sfx) (rev s)"
  by (simp add: endswith_def suffix_to_prefix)

lemma create_user_index_failure:
  assumes "create_user_index env docs uid path fname = (Inl e, docs')"
  shows "docs' = docs"
  using assms by (simp add: create_user_index_def Let_def split: if_splits)

text \<open>
  Claim C7. Whatever exception \<open>create_user_index\<close> raises, \<open>user_documents\<close> is as it
  was before the call, so no session is created and a session already stored under
  the id stays. A file name that ends in neither \<open>.pdf\<close> nor \<open>.docx\<close> raises, and so
  does a text in which the sentence splitter finds no sentence (no chunk at all).
\<close>

theorem failed_ingestion_keeps_sessions:
  "(\<forall>e docs'. create_user_index env docs uid path fname = (Inl e, docs') \<longrightarrow> docs' = docs) \<and>
   (\<not> endswith fname ''.pdf'' \<and> \<not> endswith fname ''.docx'' \<longrightarrow>
      create_user_index env docs uid path fname =
        (Inl (ValueError ''Unsupported file format''), docs)) \<and>
   ((endswith fname ''.pdf'' \<or> endswith fname ''.docx'') \<and>
    sent_tokenize env (clean_text (if endswith fname ''.pdf''
        then extract_text_from_pdf env path else extract_text_from_docx env path)) = [] \<longrightarrow>
      create_user_index env docs uid path fname =
        (Inl (ValueError ''No text extracted from document''), docs))"
proof (intro conjI allI impI)
  fix e docs'
  assume "create_user_index env docs uid path fname = (Inl e, docs')"
  then show "docs' = docs" by (rule create_user_index_failure)
next
  assume "\<not> endswith fname ''.pdf'' \<and> \<not> endswith fname ''.docx''"
  then show "create_user_index env docs uid path fname =
        (Inl (ValueError ''Unsupported file format''), docs)"
    by (simp add: create_user_index_def)
next
  assume "(endswith fname ''.pdf'' \<or> endswith fname ''.docx'') \<and>
    sent_tokenize env (clean_text (if endswith fname ''.pdf''
        then extract_text_from_pdf env path else extract_text_from_docx env path)) = []"
  then show "create_user_index env docs uid path fname =
        (Inl (ValueError ''No text extracted from document''), docs)"
    by (auto simp add: create_user_index_def chunk_text_Nil_iff Let_def)
qed

lemma example_documents_u1:
  "example_documents ''u1'' =
     Some \<lparr>index = flat_ip [[1]],
       metadata = \<lparr>filename = ''alpha.pdf'',
         chunks = [''Alpha is first. Beta is second. Gamma is third.''],
         upload_date = ''2025-01-01T00:00:00'', total_chunks = 1\<rparr>\<rparr>"
  by (simp add: example_documents_def create_user_index_def example_env_def endswith_prefix
      clean_text_def quoted_pattern_def strip_def chunk_text_def example_tokenize_def
      example_text_def token_count_def str_split_def isspace_def Let_def)

text \<open>
  Two failed uploads for user \<open>u1\<close>, who has a document: an empty PDF and a text file.
\<close>

theorem failed_ingestion_keeps_sessions_witness:
  "example_documents ''u1'' \<noteq> None \<and>
   create_user_index example_env example_documents ''u1'' ''uploads/u1_empty.pdf'' ''empty.pdf'' =
     (Inl (ValueError ''No text extracted from document''), example_documents) \<and>
   create_user_index example_env example_documents ''u1'' ''uploads/u1_notes.txt'' ''notes.txt'' =
     (Inl (ValueError ''Unsupported file format''), example_documents)"
proof -
  have a: "(endswith ''empty.pdf'' ''.pdf'' \<or> endswith ''empty.pdf'' ''.docx'') \<and>
    sent_tokenize example_env (clean_text (if endswith ''empty.pdf'' ''.pdf''
        then extract_text_from_pdf example_env ''uploads/u1_empty.pdf''
        else extract_text_from_docx example_env ''uploads/u1_empty.pdf'')) = []"
    by (simp add: endswith_prefix example_env_def clean_text_def strip_def
        example_tokenize_def example_text_def)
  have b: "\<not> endswith ''notes.txt'' ''.pdf'' \<and> \<not> endswith ''notes.txt'' ''.docx''"
    by (simp add: endswith_prefix)
  from a b
    failed_ingestion_keeps_sessions [of example_env example_documents "''u1''"
      "''uploads/u1_empty.pdf''" "''empty.pdf''"]
    failed_ingestion_keeps_sessions [of example_env example_documents "''u1''"
      "''uploads/u1_notes.txt''" "''notes.txt''"]
  show ?thesis by (simp add: example_documents_u1)
qed

text \<open>
  Claim C8 as stated fails: after the session of \<open>u1\<close> was deleted, a query for \<open>u1\<close>
  with an empty question is answered with status 400 by the check of the request,
  which comes before the lookup of the session.
\<close>

theorem deleted_session_empty_question_counterexample:
  "example_documents ''u1'' \<noteq> None \<and>
   fst (delete_user_document example_documents ''u1'') =
     (Message ''Document deleted successfully'', 200) \<and>
   ask_question example_env (snd (delete_user_document example_documents ''u1''))
     \<lparr>user_id = Some ''u1'', question = Some ''''\<rparr> =
     Inr (Error ''user_id and question required'', 400)"
  by (simp add: example_documents_u1 delete_user_document_def ask_question_def falsy_def dom_def)

text \<open>
  Claim C8, amended. For a non-empty id with a session, the delete succeeds and removes
  the session; after it a query with a non-empty question for that id gets status 404
  (document not found), and a second delete gets status 404 and leaves the store as
  it is. A request whose id or question is missing or empty gets status 400.
\<close>

theorem deleted_session_not_found:
  assumes "uid \<in> dom docs" and "uid \<noteq> []" and "q \<noteq> []"
  shows "delete_user_document docs uid =
           ((Message ''Document deleted successfully'', 200), docs(uid := None)) \<and>
         ask_question env (docs(uid := None)) \<lparr>user_id = Some uid, question = Some q\<rparr> =
           Inr (Error ''Document not found. Please upload first.'', 404) \<and>
         delete_user_document (docs(uid := None)) uid =
           ((Error ''Document not found'', 404), docs(uid := None)) \<and>
         (\<forall>data. falsy (user_id data) \<or> falsy (question data) \<longrightarrow>
            ask_question env (docs(uid := None)) data =
              Inr (Error ''user_id and question required'', 400))"
  using assms by (simp add: delete_user_document_def ask_question_def falsy_def)

text \<open>The session of \<open>u1\<close>, deleted, queried and deleted again.\<close>

theorem deleted_session_not_found_witness:
  "''u1'' \<in> dom example_documents \<and>
   ask_question example_env (snd (delete_user_document example_documents ''u1''))
     \<lparr>user_id = Some ''u1'', question = Some ''What is first?''\<rparr> =
     Inr (Error ''Document not found. Please upload first.'', 404) \<and>
   fst (delete_user_document (snd (delete_user_document example_documents ''u1'')) ''u1'') =
     (Error ''Document not found'', 404)"
proof -
  have a: "''u1'' \<in> dom example_documents" by (simp add: dom_def example_documents_u1)
  have b: "''u1'' \<noteq> []" and c: "''What is first?'' \<noteq> []" by simp_all
  from deleted_session_not_found [OF a b c, of example_env] a show ?thesis by simp
qed

lemma selected_chunks_take: "selected_chunks cs = take 50 cs"
  by (simp add: selected_chunks_def slice_to_def)

text \<open>
  Claim C10. For a session, the summary chain is run on the first 50 chunks only (all
  of them when there are fewer), joined by blank lines, and the response reports the
  number of chunks read and the number of chunks of the document. (A request with the
  empty id is rejected before the session is read.)
\<close>

theorem summary_reads_first_50_chunks:
  assumes "user_id data = Some uid" and "docs uid = Some doc"
  shows "generate_summary_app env docs data =
           (if uid = [] then (Error ''user_id required'', 400)
            else (Summary
              (summary_chain env (str_join [CHR 0x0A, CHR 0x0A] (take 50 (chunks (metadata doc))))
                 (filename (metadata doc)))
              (filename (metadata doc))
              (int (min 50 (length (chunks (metadata doc)))))
              (int (length (chunks (metadata doc)))), 200))"
  using assms
  by (auto simp add: generate_summary_app_def falsy_def selected_chunks_take Let_def min_def)

text \<open>A document of 60 chunks: 50 are read, 60 are reported.\<close>

theorem summary_reads_first_50_chunks_witness:
  "generate_summary_app example_env
     [''u2'' \<mapsto> \<lparr>index = flat_ip [], metadata = \<lparr>filename = ''big.pdf'',
        chunks = replicate 60 ''x.'', upload_date = ''2025-01-01T00:00:00'',
        total_chunks = 60\<rparr>\<rparr>]
     \<lparr>user_id = Some ''u2'', question = None\<rparr> =
   (Summary (str_join [CHR 0x0A, CHR 0x0A] (replicate 50 ''x.'')) ''big.pdf'' 50 60, 200)"
  using summary_reads_first_50_chunks [of "\<lparr>user_id = Some ''u2'', question = None\<rparr>" "''u2''"
      "[''u2'' \<mapsto> \<lparr>index = flat_ip [], metadata = \<lparr>filename = ''big.pdf'',
        chunks = replicate 60 ''x.'', upload_date = ''2025-01-01T00:00:00'',
        total_chunks = 60\<rparr>\<rparr>]"
      "\<lparr>index = flat_ip [], metadata = \<lparr>filename = ''big.pdf'',
        chunks = replicate 60 ''x.'', upload_date = ''2025-01-01T00:00:00'',
        total_chunks = 60\<rparr>\<rparr>" example_env]
  by (simp add: example_env_def)

text \<open>
  Claim C9 as stated fails: at secondary score 1 the primary scores \<open>1 / 2 ^ 60\<close> and
  \<open>1 / 2 ^ 59\<close> give the same combined score, the double \<open>0.3\<close>, because the sum is
  rounded.
\<close>

theorem fused_score_rounding_counterexample:
  "score_primary \<lparr>theme = ''SDG6'', file' = ''a.pdf'', entry_chunk_text = ''water'',
      score_primary = 1 / 2 ^ 60, score_enhanced = 1, idx = 0\<rparr>
   < score_primary \<lparr>theme = ''SDG6'', file' = ''a.pdf'', entry_chunk_text = ''water'',
      score_primary = 1 / 2 ^ 59, score_enhanced = 1, idx = 0\<rparr> \<and>
   combined_score (with_combined_score
     \<lparr>theme = ''SDG6'', file' = ''a.pdf'', entry_chunk_text = ''water'',
      score_primary = 1 / 2 ^ 60, score_enhanced = 1, idx = 0\<rparr>) = weight_enhanced \<and>
   combined_score (with_combined_score
     \<lparr>theme = ''SDG6'', file' = ''a.pdf'', entry_chunk_text = ''water'',
      score_primary = 1 / 2 ^ 59, score_enhanced = 1, idx = 0\<rparr>) = weight_enhanced"
  using combined_tiny_60 combined_tiny_59 by (simp add: with_combined_score_def)

text \<open>
  The combined score differs from the weighted sum in exact arithmetic by at most
  three roundings.
\<close>

lemma combined_score_error:
  "\<bar>combined_score (with_combined_score e) -
     (score_primary e * weight_primary + score_enhanced e * weight_enhanced)\<bar>
   \<le> 3 * (1 / 2 ^ 53) *
       (\<bar>score_primary e * weight_primary\<bar> + \<bar>score_enhanced e * weight_enhanced\<bar>)"
proof -
  let ?a = "score_primary e * weight_primary"
  let ?b = "score_enhanced e * weight_enhanced"
  have "\<bar>float64 (float64 ?a + float64 ?b) - (?a + ?b)\<bar>
          \<le> 3 * (1 / 2 ^ 53) * (\<bar>?a\<bar> + \<bar>?b\<bar>)"
  proof (rule rounded_sum_error)
    show "\<bar>float64 ?a - ?a\<bar> \<le> 1 / 2 ^ 53 * \<bar>?a\<bar>"
      using float64_error [of ?a] by simp
    show "\<bar>float64 ?b - ?b\<bar> \<le> 1 / 2 ^ 53 * \<bar>?b\<bar>"
      using float64_error [of ?b] by simp
    show "\<bar>float64 (float64 ?a + float64 ?b) - (float64 ?a + float64 ?b)\<bar>
            \<le> 1 / 2 ^ 53 * \<bar>float64 ?a + float64 ?b\<bar>"
      using float64_error [of "float64 ?a + float64 ?b"] by simp
  qed simp_all
  then show ?thesis by (simp add: with_combined_score_def)
qed

text \<open>
  Claim C9, amended. Of two entries with the same secondary score, the one with the
  larger primary score gets a combined score that is at least as large; the weighted
  sum itself, before any rounding, is strictly larger; and the combined score is that
  sum up to the rounding error.
\<close>

theorem fused_score_never_decreases:
  assumes "score_primary e \<le> score_primary e'" and "score_enhanced e' = score_enhanced e"
  shows "combined_score (with_combined_score e) \<le> combined_score (with_combined_score e') \<and>
         (score_primary e < score_primary e' \<longrightarrow>
            score_primary e * weight_primary + score_enhanced e * weight_enhanced
            < score_primary e' * weight_primary + score_enhanced e' * weight_enhanced) \<and>
         \<bar>combined_score (with_combined_score e) -
            (score_primary e * weight_primary + score_enhanced e * weight_enhanced)\<bar>
         \<le> 3 * (1 / 2 ^ 53) *
             (\<bar>score_primary e * weight_primary\<bar> + \<bar>score_enhanced e * weight_enhanced\<bar>)"
proof (intro conjI)
  show "\<bar>combined_score (with_combined_score e) -
            (score_primary e * weight_primary + score_enhanced e * weight_enhanced)\<bar>
         \<le> 3 * (1 / 2 ^ 53) *
             (\<bar>score_primary e * weight_primary\<bar> + \<bar>score_enhanced e * weight_enhanced\<bar>)"
    by (rule combined_score_error)
  have w: "0 < weight_primary" by (simp add: weight_primary_def)
  from assms(1) w have "score_primary e * weight_primary \<le> score_primary e' * weight_primary"
    by (simp add: mult_right_mono)
  then have "float64 (score_primary e * weight_primary) \<le>
             float64 (score_primary e' * weight_primary)"
    by (rule float64_mono)
  then have "float64 (score_primary e * weight_primary) +
               float64 (score_enhanced e * weight_enhanced) \<le>
             float64 (score_primary e' * weight_primary) +
               float64 (score_enhanced e' * weight_enhanced)"
    using assms(2) by simp
  then show "combined_score (with_combined_score e) \<le> combined_score (with_combined_score e')"
    by (simp add: with_combined_score_def float64_mono)
  show "score_primary e < score_primary e' \<longrightarrow>
            score_primary e * weight_primary + score_enhanced e * weight_enhanced
            < score_primary e' * weight_primary + score_enhanced e' * weight_enhanced"
    using assms(2) w by simp
qed

text \<open>
  The primary score raised from \<open>1 / 2 ^ 60\<close> to \<open>1 / 2 ^ 59\<close> at secondary score 1, and
  from 0 to 1 at secondary score 0.
\<close>

theorem fused_score_never_decreases_witness:
  "combined_score (with_combined_score
     \<lparr>theme = ''SDG6'', file' = ''a.pdf'', entry_chunk_text = ''water'',
      score_primary = 1 / 2 ^ 60, score_enhanced = 1, idx = 0\<rparr>)
   \<le> combined_score (with_combined_score
     \<lparr>theme = ''SDG6'', file' = ''a.pdf'', entry_chunk_text = ''water'',
      score_primary = 1 / 2 ^ 59, score_enhanced = 1, idx = 0\<rparr>) \<and>
   combined_score (with_combined_score
     \<lparr>theme = ''SDG6'', file' = ''a.pdf'', entry_chunk_text = ''water'',
      score_primary = 0, score_enhanced = 0, idx = 0\<rparr>)
   < combined_score (with_combined_score
     \<lparr>theme = ''SDG6'', file' = ''a.pdf'', entry_chunk_text = ''water'',
      score_primary = 1, score_enhanced = 0, idx = 0\<rparr>)"
proof -
  have "combined_score (with_combined_score
     \<lparr>theme = ''SDG6'', file' = ''a.pdf'', entry_chunk_text = ''water'',
      score_primary = 1 / 2 ^ 60, score_enhanced = 1, idx = 0\<rparr>)
   \<le> combined_score (with_combined_score
     \<lparr>theme = ''SDG6'', file' = ''a.pdf'', entry_chunk_text = ''water'',
      score_primary = 1 / 2 ^ 59, score_enhanced = 1, idx = 0\<rparr>)"
    using fused_score_never_decreases
      [of "\<lparr>theme = ''SDG6'', file' = ''a.pdf'', entry_chunk_text = ''water'',
             score_primary = 1 / 2 ^ 60, score_enhanced = 1, idx = 0\<rparr>"
          "\<lparr>theme = ''SDG6'', file' = ''a.pdf'', entry_chunk_text = ''water'',
             score_primary = 1 / 2 ^ 59, score_enhanced = 1, idx = 0\<rparr>"]
    by simp
  moreover have "combined_score (with_combined_score
     \<lparr>theme = ''SDG6'', file' = ''a.pdf'', entry_chunk_text = ''water'',
      score_primary = 0, score_enhanced = 0, idx = 0\<rparr>)
   < combined_score (with_combined_score
     \<lparr>theme = ''SDG6'', file' = ''a.pdf'', entry_chunk_text = ''water'',
      score_primary = 1, score_enhanced = 0, idx = 0\<rparr>)"
    by (simp add: with_combined_score_def float64_zero float64_weight_primary)
       (simp add: weight_primary_def)
  ultimately show ?thesis by simp
qed

text \<open>
  The label \<open>-1\<close> passes the test \<open>idx < len(chunks)\<close> of app.py and reads the last
  chunk; the test \<open>idx != -1 and idx < len(df_chunks)\<close> of main.py skips it.
\<close>

lemma search_loop_minus_one:
  "cs \<noteq> [] \<Longrightarrow>
   search_loop cs [(sc, - 1)] [] = Inr [\<lparr>chunk_text' = last cs, score = sc, chunk_index = - 1\<rparr>]"
  by (cases cs rule: rev_cases) (simp_all add: getitem_def)

lemma primary_loop_minus_one: "primary_loop df ((sc, - 1) # found) d = primary_loop df found d"
  by simp

lemma flat_ip_one_five:
  "flat_ip [[1]] [[1]] 5 =
     [(1, 0), (lowest_score, - 1), (lowest_score, - 1), (lowest_score, - 1), (lowest_score, - 1)]"
  by (simp add: flat_ip_def inner_product_def enumerate_eq_zip numeral_eq_Suc)

text \<open>
  Claim C2 at a document of one chunk and \<open>k = 5\<close> (the \<open>k\<close> of \<open>ask_question\<close>): the
  search of app.py returns five results, four of them with position \<open>-1\<close>, the lowest
  score and the text of the last chunk.
\<close>

theorem short_document_search_returns_padding:
  "map_option (\<lambda>d. total_chunks (metadata d)) (example_documents ''u1'') = Some 1 \<and>
   semantic_search_app example_env example_documents ''u1'' ''What is first?'' 5 =
     Inr [\<lparr>chunk_text' = ''Alpha is first. Beta is second. Gamma is third.'',
            score = 1, chunk_index = 0\<rparr>,
          \<lparr>chunk_text' = ''Alpha is first. Beta is second. Gamma is third.'',
            score = lowest_score, chunk_index = - 1\<rparr>,
          \<lparr>chunk_text' = ''Alpha is first. Beta is second. Gamma is third.'',
            score = lowest_score, chunk_index = - 1\<rparr>,
          \<lparr>chunk_text' = ''Alpha is first. Beta is second. Gamma is third.'',
            score = lowest_score, chunk_index = - 1\<rparr>,
          \<lparr>chunk_text' = ''Alpha is first. Beta is second. Gamma is third.'',
            score = lowest_score, chunk_index = - 1\<rparr>]"
  by (simp add: semantic_search_app_def example_documents_u1 flat_ip_one_five getitem_def)
     (simp add: example_env_def flat_ip_one_five getitem_def)

text \<open>
  Claim C1, amended. \<open>semantic_search\<close> of main.py is the ensemble query of the
  specification with the one index of the corpus in both places: the query is embedded
  by both models, and both embeddings are searched in the same index.
\<close>

theorem both_queries_search_one_index:
  "semantic_search_main g query k =
     ensemble_query (primary_model g) (secondary_model g) (faiss_index g) (faiss_index g)
       (df_chunks g) query k"
  by (simp add: semantic_search_main_def ensemble_query_def)

lemma example_index_primary_query:
  "flat_ip [[1, 0], [0, 1]] [[1, 0]] 1 = [(1, 0)]"
  by (simp add: flat_ip_def inner_product_def enumerate_eq_zip)

lemma example_index_secondary_query:
  "flat_ip [[1, 0], [0, 1]] [[0, 1]] 1 = [(1, 1)]"
  by (simp add: flat_ip_def inner_product_def enumerate_eq_zip)

lemma example_secondary_index_query:
  "flat_ip [[0, 1], [1, 0]] [[0, 1]] 1 = [(1, 0)]"
  by (simp add: flat_ip_def inner_product_def enumerate_eq_zip)

text \<open>
  Claim C1 as stated fails: in the example corpus the index holds the primary
  provider's embeddings, and the search of main.py differs from the query over two
  indices, the second built from the secondary provider's embeddings.
\<close>

theorem single_index_counterexample:
  "faiss_index example_corpus = flat_ip (example_primary (map row_chunk_text example_rows)) \<and>
   semantic_search_main example_corpus ''water'' 1 =
     Inr [\<lparr>theme = ''SDG6'', file' = ''a.pdf'', entry_chunk_text = ''water'',
           score_primary = 1, score_enhanced = 0, idx = 0,
           combined_score = weight_primary\<rparr>] \<and>
   ensemble_query example_primary example_secondary
       (flat_ip (example_primary (map row_chunk_text example_rows)))
       (flat_ip (example_secondary (map row_chunk_text example_rows)))
       example_rows ''water'' 1 =
     Inr [\<lparr>theme = ''SDG6'', file' = ''a.pdf'', entry_chunk_text = ''water'',
           score_primary = 1, score_enhanced = 1, idx = 0, combined_score = 1\<rparr>]"
  by (simp add: semantic_search_main_def ensemble_query_def example_corpus_def
      example_primary_def example_secondary_def example_rows_def
      example_index_primary_query example_index_secondary_query example_secondary_index_query
      fuse_def combined_results_def scored_values_def getitem_def with_combined_score_def
      sorted_results_def slice_to_def float64_zero float64_weight_primary
      float64_weight_enhanced float64_weights_sum weights_order)

section \<open>Properties of the fusion (main.py) and of the search loop (app.py)\<close>

lemma getitem_position:
  "- 1 \<le> i \<Longrightarrow> valid_label df i \<Longrightarrow> getitem df i = Inr (df ! nat i)"
  by (simp add: getitem_def valid_label_def)

lemma hit_ids_Nil: "hit_ids df [] = {}"
  by (simp add: hit_ids_def)

lemma hit_ids_Cons:
  "hit_ids df (h # found) =
     (if valid_label df (snd h) then insert (chunk_id (df ! nat (snd h))) (hit_ids df found)
      else hit_ids df found)"
  by (simp add: hit_ids_def)

lemma hit_ids_iff:
  "c \<in> hit_ids df found \<longleftrightarrow>
     (\<exists>h\<in>set found. valid_label df (snd h) \<and> chunk_id (df ! nat (snd h)) = c)"
  by (auto simp: hit_ids_def)

lemma primary_loop_skip:
  "\<not> valid_label df i \<Longrightarrow> primary_loop df ((sc, i) # found) d = primary_loop df found d"
  by (auto simp: valid_label_def)

lemma primary_loop_take:
  "valid_label df i \<Longrightarrow> - 1 \<le> i \<Longrightarrow>
   primary_loop df ((sc, i) # found) d =
     primary_loop df found
       (AList.update (chunk_id (df ! nat i))
          \<lparr>theme = row_theme (df ! nat i), file' = file_name (df ! nat i),
           entry_chunk_text = row_chunk_text (df ! nat i),
           score_primary = sc, score_enhanced = 0, idx = i\<rparr> d)"
  by (auto simp: valid_label_def getitem_def)

lemma primary_loop_map:
  assumes "\<forall>h\<in>set found. - 1 \<le> snd h"
  shows "\<exists>d'. primary_loop df found d = Inr d' \<and>
           (distinct (map fst d) \<longrightarrow> distinct (map fst d')) \<and>
           (\<forall>c. (c \<notin> hit_ids df found \<longrightarrow> map_of d' c = map_of d c) \<and>
                (c \<in> hit_ids df found \<longrightarrow>
                   (\<exists>e'. map_of d' c = Some e' \<and> score_enhanced e' = 0 \<and>
                      (\<exists>h\<in>set found. valid_label df (snd h) \<and>
                          chunk_id (df ! nat (snd h)) = c \<and> score_primary e' = fst h))))"
  using assms
proof (induction found arbitrary: d)
  case Nil
  then show ?case by (simp add: hit_ids_Nil)
next
  case (Cons h found)
  obtain sc i where h: "h = (sc, i)" by (cases h)
  from Cons.prems have rest: "\<forall>h\<in>set found. - 1 \<le> snd h" and i: "- 1 \<le> i"
    by (simp_all add: h)
  show ?case
  proof (cases "valid_label df i")
    case False
    have step: "primary_loop df (h # found) d = primary_loop df found d"
      unfolding h by (rule primary_loop_skip [OF False])
    from False have ids: "hit_ids df (h # found) = hit_ids df found"
      by (simp add: hit_ids_Cons h)
    from Cons.IH [OF rest, of d] obtain d' where d': "primary_loop df found d = Inr d'"
      "distinct (map fst d) \<longrightarrow> distinct (map fst d')"
      "\<forall>c. (c \<notin> hit_ids df found \<longrightarrow> map_of d' c = map_of d c) \<and>
                (c \<in> hit_ids df found \<longrightarrow>
                   (\<exists>e'. map_of d' c = Some e' \<and> score_enhanced e' = 0 \<and>
                      (\<exists>h\<in>set found. valid_label df (snd h) \<and>
                          chunk_id (df ! nat (snd h)) = c \<and> score_primary e' = fst h)))"
      by blast
    show ?thesis
    proof (intro exI conjI allI)
      show "primary_loop df (h # found) d = Inr d'" using step d'(1) by simp
      show "distinct (map fst d) \<longrightarrow> distinct (map fst d')" by (rule d'(2))
    next
      fix c
      show "c \<notin> hit_ids df (h # found) \<longrightarrow> map_of d' c = map_of d c"
        using d'(3) ids by simp
      show "c \<in> hit_ids df (h # found) \<longrightarrow>
                   (\<exists>e'. map_of d' c = Some e' \<and> score_enhanced e' = 0 \<and>
                      (\<exists>h\<in>set (h # found). valid_label df (snd h) \<and>
                          chunk_id (df ! nat (snd h)) = c \<and> score_primary e' = fst h))"
        using d'(3) ids by fastforce
    qed
  next
    case True
    let ?r = "df ! nat i"
    let ?v = "\<lparr>theme = row_theme ?r, file' = file_name ?r, entry_chunk_text = row_chunk_text ?r,
                score_primary = sc, score_enhanced = 0, idx = i\<rparr>"
    let ?d = "AList.update (chunk_id ?r) ?v d"
    have step: "primary_loop df (h # found) d = primary_loop df found ?d"
      unfolding h by (rule primary_loop_take [OF True i])
    from True have ids: "hit_ids df (h # found) = insert (chunk_id ?r) (hit_ids df found)"
      by (simp add: hit_ids_Cons h)
    from Cons.IH [OF rest, of ?d] obtain d' where d': "primary_loop df found ?d = Inr d'"
      "distinct (map fst ?d) \<longrightarrow> distinct (map fst d')"
      "\<forall>c. (c \<notin> hit_ids df found \<longrightarrow> map_of d' c = map_of ?d c) \<and>
                (c \<in> hit_ids df found \<longrightarrow>
                   (\<exists>e'. map_of d' c = Some e' \<and> score_enhanced e' = 0 \<and>
                      (\<exists>h\<in>set found. valid_label df (snd h) \<and>
                          chunk_id (df ! nat (snd h)) = c \<and> score_primary e' = fst h)))"
      by blast
    show ?thesis
    proof (intro exI conjI allI)
      show "primary_loop df (h # found) d = Inr d'" using step d'(1) by simp
      show "distinct (map fst d) \<longrightarrow> distinct (map fst d')"
        using d'(2) by (simp add: distinct_update)
    next
      fix c
      show "c \<notin> hit_ids df (h # found) \<longrightarrow> map_of d' c = map_of d c"
        using d'(3) ids by (simp add: update_conv')
      show "c \<in> hit_ids df (h # found) \<longrightarrow>
                   (\<exists>e'. map_of d' c = Some e' \<and> score_enhanced e' = 0 \<and>
                      (\<exists>h\<in>set (h # found). valid_label df (snd h) \<and>
                          chunk_id (df ! nat (snd h)) = c \<and> score_primary e' = fst h))"
      proof (cases "c \<in> hit_ids df found")
        case True
        with d'(3) show ?thesis by fastforce
      next
        case False
        with d'(3) have "map_of d' c = map_of ?d c" by simp
        with False ids True h show ?thesis by (auto simp: update_conv')
      qed
    qed
  qed
qed

lemma merged_entry_scores:
  "score_enhanced (merged_entry d r sc i) = sc"
  "score_primary (merged_entry d r sc i) =
     (case map_of d (chunk_id r) of Some e \<Rightarrow> score_primary e | None \<Rightarrow> 0)"
  by (simp_all add: merged_entry_def split: option.split)

lemma enhanced_loop_skip:
  "\<not> valid_label df i \<Longrightarrow> enhanced_loop df ((sc, i) # found) d = enhanced_loop df found d"
  by (auto simp: valid_label_def)

lemma enhanced_loop_take:
  "valid_label df i \<Longrightarrow> - 1 \<le> i \<Longrightarrow>
   enhanced_loop df ((sc, i) # found) d =
     enhanced_loop df found
       (AList.update (chunk_id (df ! nat i)) (merged_entry d (df ! nat i) sc i) d)"
  by (auto simp: valid_label_def getitem_def merged_entry_def split: option.split)

lemma enhanced_loop_map:
  assumes "\<forall>h\<in>set found. - 1 \<le> snd h"
  shows "\<exists>d'. enhanced_loop df found d = Inr d' \<and>
           (distinct (map fst d) \<longrightarrow> distinct (map fst d')) \<and>
           (\<forall>c. (c \<notin> hit_ids df found \<longrightarrow> map_of d' c = map_of d c) \<and>
                (c \<in> hit_ids df found \<longrightarrow>
                   (\<exists>e'. map_of d' c = Some e' \<and>
                      (\<exists>h\<in>set found. valid_label df (snd h) \<and>
                          chunk_id (df ! nat (snd h)) = c \<and> score_enhanced e' = fst h) \<and>
                      score_primary e' =
                        (case map_of d c of Some e \<Rightarrow> score_primary e | None \<Rightarrow> 0))))"
  using assms
proof (induction found arbitrary: d)
  case Nil
  then show ?case by (simp add: hit_ids_Nil)
next
  case (Cons h found)
  obtain sc i where h: "h = (sc, i)" by (cases h)
  from Cons.prems have rest: "\<forall>h\<in>set found. - 1 \<le> snd h" and i: "- 1 \<le> i"
    by (simp_all add: h)
  show ?case
  proof (cases "valid_label df i")
    case False
    have step: "enhanced_loop df (h # found) d = enhanced_loop df found d"
      unfolding h by (rule enhanced_loop_skip [OF False])
    from False have ids: "hit_ids df (h # found) = hit_ids df found"
      by (simp add: hit_ids_Cons h)
    from Cons.IH [OF rest, of d] obtain d' where d': "enhanced_loop df found d = Inr d'"
      "distinct (map fst d) \<longrightarrow> distinct (map fst d')"
      "\<forall>c. (c \<notin> hit_ids df found \<longrightarrow> map_of d' c = map_of d c) \<and>
                (c \<in> hit_ids df found \<longrightarrow>
                   (\<exists>e'. map_of d' c = Some e' \<and>
                      (\<exists>h\<in>set found. valid_label df (snd h) \<and>
                          chunk_id (df ! nat (snd h)) = c \<and> score_enhanced e' = fst h) \<and>
                      score_primary e' =
                        (case map_of d c of Some e \<Rightarrow> score_primary e | None \<Rightarrow> 0)))"
      by blast
    show ?thesis
    proof (intro exI conjI allI)
      show "enhanced_loop df (h # found) d = Inr d'" using step d'(1) by simp
      show "distinct (map fst d) \<longrightarrow> distinct (map fst d')" by (rule d'(2))
    next
      fix c
      show "c \<notin> hit_ids df (h # found) \<longrightarrow> map_of d' c = map_of d c"
        using d'(3) ids by simp
      show "c \<in> hit_ids df (h # found) \<longrightarrow>
                   (\<exists>e'. map_of d' c = Some e' \<and>
                      (\<exists>h\<in>set (h # found). valid_label df (snd h) \<and>
                          chunk_id (df ! nat (snd h)) = c \<and> score_enhanced e' = fst h) \<and>
                      score_primary e' =
                        (case map_of d c of Some e \<Rightarrow> score_primary e | None \<Rightarrow> 0))"
        using d'(3) ids by fastforce
    qed
  next
    case True
    let ?r = "df ! nat i"
    let ?v = "merged_entry d ?r sc i"
    let ?d = "AList.update (chunk_id ?r) ?v d"
    have step: "enhanced_loop df (h # found) d = enhanced_loop df found ?d"
      unfolding h by (rule enhanced_loop_take [OF True i])
    from True have ids: "hit_ids df (h # found) = insert (chunk_id ?r) (hit_ids df found)"
      by (simp add: hit_ids_Cons h)
    have prim: "(case map_of ?d c of Some e \<Rightarrow> score_primary e | None \<Rightarrow> 0) =
                (case map_of d c of Some e \<Rightarrow> score_primary e | None \<Rightarrow> (0::real))" for c
      by (simp add: update_conv' merged_entry_scores)
    from Cons.IH [OF rest, of ?d] obtain d' where d': "enhanced_loop df found ?d = Inr d'"
      "distinct (map fst ?d) \<longrightarrow> distinct (map fst d')"
      "\<forall>c. (c \<notin> hit_ids df found \<longrightarrow> map_of d' c = map_of ?d c) \<and>
                (c \<in> hit_ids df found \<longrightarrow>
                   (\<exists>e'. map_of d' c = Some e' \<and>
                      (\<exists>h\<in>set found. valid_label df (snd h) \<and>
                          chunk_id (df ! nat (snd h)) = c \<and> score_enhanced e' = fst h) \<and>
                      score_primary e' =
                        (case map_of ?d c of Some e \<Rightarrow> score_primary e | None \<Rightarrow> 0)))"
      by blast
    show ?thesis
    proof (intro exI conjI allI)
      show "enhanced_loop df (h # found) d = Inr d'" using step d'(1) by simp
      show "distinct (map fst d) \<longrightarrow> distinct (map fst d')"
        using d'(2) by (simp add: distinct_update)
    next
      fix c
      show "c \<notin> hit_ids df (h # found) \<longrightarrow> map_of d' c = map_of d c"
        using d'(3) ids by (simp add: update_conv')
      show "c \<in> hit_ids df (h # found) \<longrightarrow>
                   (\<exists>e'. map_of d' c = Some e' \<and>
                      (\<exists>h\<in>set (h # found). valid_label df (snd h) \<and>
                          chunk_id (df ! nat (snd h)) = c \<and> score_enhanced e' = fst h) \<and>
                      score_primary e' =
                        (case map_of d c of Some e \<Rightarrow> score_primary e | None \<Rightarrow> 0))"
      proof (cases "c \<in> hit_ids df found")
        case True
        with d'(3) obtain e' where e': "map_of d' c = Some e'"
          "\<exists>h\<in>set found. valid_label df (snd h) \<and>
                          chunk_id (df ! nat (snd h)) = c \<and> score_enhanced e' = fst h"
          "score_primary e' = (case map_of ?d c of Some e \<Rightarrow> score_primary e | None \<Rightarrow> 0)"
          by blast
        from e'(2) have "\<exists>h\<in>set (h # found). valid_label df (snd h) \<and>
                          chunk_id (df ! nat (snd h)) = c \<and> score_enhanced e' = fst h"
          by auto
        with e'(1,3) prim [of c] show ?thesis by auto
      next
        case False
        with d'(3) have same: "map_of d' c = map_of ?d c" by simp
        show ?thesis
        proof
          assume "c \<in> hit_ids df (h # found)"
          with False ids have c: "c = chunk_id ?r" by simp
          with same have "map_of d' c = Some ?v" by (simp add: update_conv')
          moreover have "\<exists>h\<in>set (h # found). valid_label df (snd h) \<and>
                          chunk_id (df ! nat (snd h)) = c \<and> score_enhanced ?v = fst h"
            using True c h by (simp add: merged_entry_scores)
          moreover have "score_primary ?v =
                        (case map_of d c of Some e \<Rightarrow> score_primary e | None \<Rightarrow> 0)"
            using c by (simp add: merged_entry_scores)
          ultimately show "\<exists>e'. map_of d' c = Some e' \<and>
                      (\<exists>h\<in>set (h # found). valid_label df (snd h) \<and>
                          chunk_id (df ! nat (snd h)) = c \<and> score_enhanced e' = fst h) \<and>
                      score_primary e' =
                        (case map_of d c of Some e \<Rightarrow> score_primary e | None \<Rightarrow> 0)"
            by blast
        qed
      qed
    qed
  qed
qed

lemma combined_results_map:
  assumes "\<forall>h\<in>set found_primary \<union> set found_enhanced. - 1 \<le> snd h"
  shows "\<exists>d. combined_results df found_primary found_enhanced = Inr d \<and>
           distinct (map fst d) \<and>
           (\<forall>c. (c \<notin> hit_ids df found_primary \<union> hit_ids df found_enhanced \<longrightarrow> map_of d c = None) \<and>
                (c \<in> hit_ids df found_primary \<union> hit_ids df found_enhanced \<longrightarrow>
                  (\<exists>e. map_of d c = Some e \<and>
                    (if c \<in> hit_ids df found_primary
                     then \<exists>h\<in>set found_primary. valid_label df (snd h) \<and>
                            chunk_id (df ! nat (snd h)) = c \<and> score_primary e = fst h
                     else score_primary e = 0) \<and>
                    (if c \<in> hit_ids df found_enhanced
                     then \<exists>h\<in>set found_enhanced. valid_label df (snd h) \<and>
                            chunk_id (df ! nat (snd h)) = c \<and> score_enhanced e = fst h
                     else score_enhanced e = 0))))"
proof -
  from assms have p: "\<forall>h\<in>set found_primary. - 1 \<le> snd h"
    and e: "\<forall>h\<in>set found_enhanced. - 1 \<le> snd h" by auto
  from primary_loop_map [OF p, of df "[]"] obtain d1 where d1:
    "primary_loop df found_primary [] = Inr d1" "distinct (map fst d1)"
    "\<And>c. c \<notin> hit_ids df found_primary \<Longrightarrow> map_of d1 c = None"
    "\<And>c. c \<in> hit_ids df found_primary \<Longrightarrow>
        \<exists>e'. map_of d1 c = Some e' \<and> score_enhanced e' = 0 \<and>
           (\<exists>h\<in>set found_primary. valid_label df (snd h) \<and>
                chunk_id (df ! nat (snd h)) = c \<and> score_primary e' = fst h)"
    by fastforce
  from enhanced_loop_map [OF e, of df d1] obtain d2 where d2:
    "enhanced_loop df found_enhanced d1 = Inr d2" "distinct (map fst d1) \<longrightarrow> distinct (map fst d2)"
    "\<And>c. c \<notin> hit_ids df found_enhanced \<Longrightarrow> map_of d2 c = map_of d1 c"
    "\<And>c. c \<in> hit_ids df found_enhanced \<Longrightarrow>
        \<exists>e'. map_of d2 c = Some e' \<and>
           (\<exists>h\<in>set found_enhanced. valid_label df (snd h) \<and>
                chunk_id (df ! nat (snd h)) = c \<and> score_enhanced e' = fst h) \<and>
           score_primary e' = (case map_of d1 c of Some e \<Rightarrow> score_primary e | None \<Rightarrow> 0)"
    by blast
  have res: "combined_results df found_primary found_enhanced = Inr d2"
    by (simp add: combined_results_def d1(1) d2(1))
  have dist: "distinct (map fst d2)" using d1(2) d2(2) by simp
  have none: "map_of d2 c = None"
    if "c \<notin> hit_ids df found_primary \<union> hit_ids df found_enhanced" for c
    using that d1(3) d2(3) by simp
  have some: "\<exists>e. map_of d2 c = Some e \<and>
            (if c \<in> hit_ids df found_primary
             then \<exists>h\<in>set found_primary. valid_label df (snd h) \<and>
                    chunk_id (df ! nat (snd h)) = c \<and> score_primary e = fst h
             else score_primary e = 0) \<and>
            (if c \<in> hit_ids df found_enhanced
             then \<exists>h\<in>set found_enhanced. valid_label df (snd h) \<and>
                    chunk_id (df ! nat (snd h)) = c \<and> score_enhanced e = fst h
             else score_enhanced e = 0)"
    if c: "c \<in> hit_ids df found_primary \<union> hit_ids df found_enhanced" for c
  proof (cases "c \<in> hit_ids df found_enhanced")
    case False
    with c have cp: "c \<in> hit_ids df found_primary" by simp
    from d1(4) [OF cp] obtain e1 where e1: "map_of d1 c = Some e1" "score_enhanced e1 = 0"
      "\<exists>h\<in>set found_primary. valid_label df (snd h) \<and>
                chunk_id (df ! nat (snd h)) = c \<and> score_primary e1 = fst h"
      by blast
    from d2(3) [OF False] e1(1) have "map_of d2 c = Some e1" by simp
    with e1(2,3) False cp show ?thesis by simp
  next
    case True
    from d2(4) [OF True] obtain e' where e': "map_of d2 c = Some e'"
      "\<exists>h\<in>set found_enhanced. valid_label df (snd h) \<and>
              chunk_id (df ! nat (snd h)) = c \<and> score_enhanced e' = fst h"
      "score_primary e' = (case map_of d1 c of Some e \<Rightarrow> score_primary e | None \<Rightarrow> 0)"
      by blast
    show ?thesis
    proof (cases "c \<in> hit_ids df found_primary")
      case False
      with d1(3) e'(3) have "score_primary e' = 0" by simp
      with e'(1,2) True False show ?thesis by simp
    next
      case cp: True
      from d1(4) [OF cp] obtain e1 where e1: "map_of d1 c = Some e1"
        "\<exists>h\<in>set found_primary. valid_label df (snd h) \<and>
                chunk_id (df ! nat (snd h)) = c \<and> score_primary e1 = fst h"
        by blast
      from e1 e'(3) have "\<exists>h\<in>set found_primary. valid_label df (snd h) \<and>
              chunk_id (df ! nat (snd h)) = c \<and> score_primary e' = fst h" by simp
      with e'(1,2) True cp show ?thesis by simp
    qed
  qed
  from res dist none some show ?thesis by blast
qed

lemma update_member:
  "(c, e) \<in> set (AList.update k v al) \<Longrightarrow> (c, e) = (k, v) \<or> (c, e) \<in> set al"
  by (induction al) (auto split: if_splits)

lemma from_row_new:
  assumes "valid_label df i" and "- 1 \<le> i"
  shows "from_row df (chunk_id (df ! nat i))
           \<lparr>theme = row_theme (df ! nat i), file' = file_name (df ! nat i),
            entry_chunk_text = row_chunk_text (df ! nat i),
            score_primary = p, score_enhanced = s, idx = i\<rparr>"
  using assms by (simp add: from_row_def valid_label_def)

lemma from_row_score: "from_row df c e \<Longrightarrow> from_row df c (e\<lparr>score_enhanced := s\<rparr>)"
  by (simp add: from_row_def)

lemma primary_loop_from_row:
  assumes "\<forall>h\<in>set found. - 1 \<le> snd h"
    and "\<forall>(c, e)\<in>set d. from_row df c e"
    and "primary_loop df found d = Inr d'"
  shows "\<forall>(c, e)\<in>set d'. from_row df c e"
  using assms
proof (induction found arbitrary: d)
  case Nil
  then show ?case by simp
next
  case (Cons h found)
  obtain sc i where h: "h = (sc, i)" by (cases h)
  from Cons.prems(1) have rest: "\<forall>h\<in>set found. - 1 \<le> snd h" and i: "- 1 \<le> i"
    by (simp_all add: h)
  show ?case
  proof (cases "valid_label df i")
    case False
    from Cons.prems(3) have "primary_loop df found d = Inr d'"
      unfolding h primary_loop_skip [OF False] .
    from Cons.IH [OF rest Cons.prems(2) this] show ?thesis .
  next
    case True
    let ?v = "\<lparr>theme = row_theme (df ! nat i), file' = file_name (df ! nat i),
                entry_chunk_text = row_chunk_text (df ! nat i),
                score_primary = sc, score_enhanced = 0, idx = i\<rparr>"
    let ?d = "AList.update (chunk_id (df ! nat i)) ?v d"
    from Cons.prems(3) have run: "primary_loop df found ?d = Inr d'"
      unfolding h primary_loop_take [OF True i] .
    have "\<forall>(c, e)\<in>set ?d. from_row df c e"
    proof (clarify)
      fix c e
      assume "(c, e) \<in> set ?d"
      then have "(c, e) = (chunk_id (df ! nat i), ?v) \<or> (c, e) \<in> set d"
        by (rule update_member)
      with from_row_new [OF True i, of sc 0] Cons.prems(2) show "from_row df c e" by auto
    qed
    from Cons.IH [OF rest this run] show ?thesis .
  qed
qed

lemma merged_entry_from_row:
  assumes "valid_label df i" and "- 1 \<le> i" and "\<forall>(c, e)\<in>set d. from_row df c e"
  shows "from_row df (chunk_id (df ! nat i)) (merged_entry d (df ! nat i) sc i)"
proof (cases "map_of d (chunk_id (df ! nat i))")
  case None
  with from_row_new [OF assms(1,2), of 0 sc] show ?thesis by (simp add: merged_entry_def)
next
  case (Some e)
  then have "(chunk_id (df ! nat i), e) \<in> set d" by (rule map_of_SomeD)
  with assms(3) have "from_row df (chunk_id (df ! nat i)) e" by auto
  with Some show ?thesis by (simp add: merged_entry_def from_row_score)
qed

lemma enhanced_loop_from_row:
  assumes "\<forall>h\<in>set found. - 1 \<le> snd h"
    and "\<forall>(c, e)\<in>set d. from_row df c e"
    and "enhanced_loop df found d = Inr d'"
  shows "\<forall>(c, e)\<in>set d'. from_row df c e"
  using assms
proof (induction found arbitrary: d)
  case Nil
  then show ?case by simp
next
  case (Cons h found)
  obtain sc i where h: "h = (sc, i)" by (cases h)
  from Cons.prems(1) have rest: "\<forall>h\<in>set found. - 1 \<le> snd h" and i: "- 1 \<le> i"
    by (simp_all add: h)
  show ?case
  proof (cases "valid_label df i")
    case False
    from Cons.prems(3) have "enhanced_loop df found d = Inr d'"
      unfolding h enhanced_loop_skip [OF False] .
    from Cons.IH [OF rest Cons.prems(2) this] show ?thesis .
  next
    case True
    let ?v = "merged_entry d (df ! nat i) sc i"
    let ?d = "AList.update (chunk_id (df ! nat i)) ?v d"
    from Cons.prems(3) have run: "enhanced_loop df found ?d = Inr d'"
      unfolding h enhanced_loop_take [OF True i] .
    have "\<forall>(c, e)\<in>set ?d. from_row df c e"
    proof (clarify)
      fix c e
      assume "(c, e) \<in> set ?d"
      then have "(c, e) = (chunk_id (df ! nat i), ?v) \<or> (c, e) \<in> set d"
        by (rule update_member)
      with merged_entry_from_row [OF True i Cons.prems(2), of sc] Cons.prems(2)
      show "from_row df c e" by auto
    qed
    from Cons.IH [OF rest this run] show ?thesis .
  qed
qed

lemma combined_results_from_row:
  assumes "\<forall>h\<in>set found_primary \<union> set found_enhanced. - 1 \<le> snd h"
    and "combined_results df found_primary found_enhanced = Inr d"
  shows "\<forall>(c, e)\<in>set d. from_row df c e"
proof -
  from assms(1) have p: "\<forall>h\<in>set found_primary. - 1 \<le> snd h"
    and e: "\<forall>h\<in>set found_enhanced. - 1 \<le> snd h" by auto
  from assms(2) obtain d1 where d1: "primary_loop df found_primary [] = Inr d1"
    and d: "enhanced_loop df found_enhanced d1 = Inr d"
    by (auto simp: combined_results_def split: sum.splits)
  have "\<forall>(c, e)\<in>set d1. from_row df c e"
    by (rule primary_loop_from_row [OF p _ d1]) simp
  from enhanced_loop_from_row [OF e this d] show ?thesis .
qed

lemma truncate_with_combined_score: "entry.truncate (with_combined_score e) = e"
  by (simp add: with_combined_score_def entry.defs)

lemma scored_values_entries: "map entry.truncate (scored_values d) = map snd d"
  by (induction d) (auto simp: scored_values_def truncate_with_combined_score)

lemma scored_values_score:
  "r \<in> set (scored_values d) \<Longrightarrow>
   combined_score r =
     float64 (float64 (score_primary r * weight_primary) +
              float64 (score_enhanced r * weight_enhanced))"
  by (auto simp: scored_values_def with_combined_score_def)

lemma sorted_results_descending:
  "sorted_wrt (\<lambda>r r'. combined_score r' \<le> combined_score r) (sorted_results rs)"
proof -
  have "sorted (map (\<lambda>r. - combined_score r) (sorted_results rs))"
    by (simp add: sorted_results_def)
  then show ?thesis by (simp add: sorted_map)
qed

lemma mset_sorted_results: "mset (sorted_results rs) = mset rs"
  by (simp add: sorted_results_def)

text \<open>
  Claim C4. \<open>semantic_search\<close> of main.py is \<open>fuse\<close> applied to the two search
  results. When every label of the two results is a position or \<open>-1\<close>, the two loops
  end with a dictionary \<open>d\<close> that has exactly one entry for each chunk id found on
  either side; an entry carries the position and the columns of a row with its chunk
  id, the score of a hit of each side that found the chunk, and \<open>0\<close> for a side that
  did not. The scored values are these entries, in the order of \<open>d\<close>, each with the
  combined score \<open>score_primary * 0.7 + score_enhanced * 0.3\<close> as floating-point
  arithmetic computes it; and the result is the slice \<open>[:k]\<close>, the first \<open>k\<close> for
  \<open>k \<ge> 0\<close>, of the scored values in descending order of the combined score.
\<close>

theorem fusion_unions_and_ranks:
  assumes "\<forall>h\<in>set found_primary \<union> set found_enhanced. - 1 \<le> snd h"
  shows "\<exists>d. combined_results df found_primary found_enhanced = Inr d \<and>
           fuse df found_primary found_enhanced k =
             Inr (slice_to k (sorted_results (scored_values d))) \<and>
           distinct (map fst d) \<and>
           fst ` set d = hit_ids df found_primary \<union> hit_ids df found_enhanced \<and>
           (\<forall>(c, e)\<in>set d. from_row df c e) \<and>
           (\<forall>(c, e)\<in>set d.
              (if c \<in> hit_ids df found_primary
               then \<exists>h\<in>set found_primary. valid_label df (snd h) \<and>
                      chunk_id (df ! nat (snd h)) = c \<and> score_primary e = fst h
               else score_primary e = 0) \<and>
              (if c \<in> hit_ids df found_enhanced
               then \<exists>h\<in>set found_enhanced. valid_label df (snd h) \<and>
                      chunk_id (df ! nat (snd h)) = c \<and> score_enhanced e = fst h
               else score_enhanced e = 0)) \<and>
           map entry.truncate (scored_values d) = map snd d \<and>
           (\<forall>r\<in>set (scored_values d).
              combined_score r =
                float64 (float64 (score_primary r * weight_primary) +
                         float64 (score_enhanced r * weight_enhanced))) \<and>
           mset (sorted_results (scored_values d)) = mset (scored_values d) \<and>
           sorted_wrt (\<lambda>r r'. combined_score r' \<le> combined_score r)
             (sorted_results (scored_values d)) \<and>
           (0 \<le> k \<longrightarrow> slice_to k (sorted_results (scored_values d)) =
                        take (nat k) (sorted_results (scored_values d)))"
proof -
  from combined_results_map [OF assms, of df] obtain d where d:
    "combined_results df found_primary found_enhanced = Inr d" "distinct (map fst d)"
    "\<And>c. c \<notin> hit_ids df found_primary \<union> hit_ids df found_enhanced \<Longrightarrow> map_of d c = None"
    "\<And>c. c \<in> hit_ids df found_primary \<union> hit_ids df found_enhanced \<Longrightarrow>
       \<exists>e. map_of d c = Some e \<and>
         (if c \<in> hit_ids df found_primary
          then \<exists>h\<in>set found_primary. valid_label df (snd h) \<and>
                 chunk_id (df ! nat (snd h)) = c \<and> score_primary e = fst h
          else score_primary e = 0) \<and>
         (if c \<in> hit_ids df found_enhanced
          then \<exists>h\<in>set found_enhanced. valid_label df (snd h) \<and>
                 chunk_id (df ! nat (snd h)) = c \<and> score_enhanced e = fst h
          else score_enhanced e = 0)"
    by blast
  have keys: "fst ` set d = hit_ids df found_primary \<union> hit_ids df found_enhanced"
  proof (rule set_eqI)
    fix c
    have "c \<in> fst ` set d \<longleftrightarrow> map_of d c \<noteq> None"
      by (simp add: map_of_eq_None_iff)
    also have "\<dots> \<longleftrightarrow> c \<in> hit_ids df found_primary \<union> hit_ids df found_enhanced"
    proof (cases "c \<in> hit_ids df found_primary \<union> hit_ids df found_enhanced")
      case True
      from d(4) [OF True] True show ?thesis by auto
    next
      case False
      from d(3) [OF False] False show ?thesis by simp
    qed
    finally show "c \<in> fst ` set d \<longleftrightarrow> c \<in> hit_ids df found_primary \<union> hit_ids df found_enhanced" .
  qed
  have rows: "\<forall>(c, e)\<in>set d. from_row df c e"
    by (rule combined_results_from_row [OF assms d(1)])
  have entries: "\<forall>(c, e)\<in>set d.
              (if c \<in> hit_ids df found_primary
               then \<exists>h\<in>set found_primary. valid_label df (snd h) \<and>
                      chunk_id (df ! nat (snd h)) = c \<and> score_primary e = fst h
               else score_primary e = 0) \<and>
              (if c \<in> hit_ids df found_enhanced
               then \<exists>h\<in>set found_enhanced. valid_label df (snd h) \<and>
                      chunk_id (df ! nat (snd h)) = c \<and> score_enhanced e = fst h
               else score_enhanced e = 0)"
  proof (clarify)
    fix c e
    assume ce: "(c, e) \<in> set d"
    with d(2) have m: "map_of d c = Some e" by simp
    from ce have "c \<in> fst ` set d" by force
    with keys have "c \<in> hit_ids df found_primary \<union> hit_ids df found_enhanced" by simp
    from d(4) [OF this] m
    show "(if c \<in> hit_ids df found_primary
               then \<exists>h\<in>set found_primary. valid_label df (snd h) \<and>
                      chunk_id (df ! nat (snd h)) = c \<and> score_primary e = fst h
               else score_primary e = 0) \<and>
              (if c \<in> hit_ids df found_enhanced
               then \<exists>h\<in>set found_enhanced. valid_label df (snd h) \<and>
                      chunk_id (df ! nat (snd h)) = c \<and> score_enhanced e = fst h
               else score_enhanced e = 0)"
      by simp
  qed
  have fused: "fuse df found_primary found_enhanced k =
             Inr (slice_to k (sorted_results (scored_values d)))"
    by (simp add: fuse_def d(1))
  have scores: "\<forall>r\<in>set (scored_values d).
              combined_score r =
                float64 (float64 (score_primary r * weight_primary) +
                         float64 (score_enhanced r * weight_enhanced))"
    using scored_values_score by blast
  have top: "0 \<le> k \<longrightarrow> slice_to k (sorted_results (scored_values d)) =
                        take (nat k) (sorted_results (scored_values d))"
    by (simp add: slice_to_def)
  from d(1) fused d(2) keys rows entries scored_values_entries [of d] scores
    mset_sorted_results [of "scored_values d"] sorted_results_descending [of "scored_values d"] top
  show ?thesis by blast
qed

text \<open>
  Chunk 10 found by the primary search only, with score 0.375, and chunk 11 by the
  secondary search only, with score 0.875. Both are in the result; the rounded
  products are \<open>0.26249999999999996\<close> and \<open>0.2625\<close>, so chunk 11 comes first.
\<close>

lemma example_combined_results:
  "combined_results example_rows [(3 / 8, 0), (lowest_score, - 1)]
     [(7 / 8, 1), (lowest_score, - 1)] =
   Inr [(10, \<lparr>theme = ''SDG6'', file' = ''a.pdf'', entry_chunk_text = ''water'',
              score_primary = 3 / 8, score_enhanced = 0, idx = 0\<rparr>),
        (11, \<lparr>theme = ''SDG7'', file' = ''b.pdf'', entry_chunk_text = ''energy'',
              score_primary = 0, score_enhanced = 7 / 8, idx = 1\<rparr>)]"
  by (simp add: combined_results_def getitem_def example_rows_def)

lemma example_sorted_results:
  "sorted_results (scored_values
     [(10 :: nat, \<lparr>theme = ''SDG6'', file' = ''a.pdf'', entry_chunk_text = ''water'',
              score_primary = 3 / 8, score_enhanced = 0, idx = 0\<rparr>),
      (11, \<lparr>theme = ''SDG7'', file' = ''b.pdf'', entry_chunk_text = ''energy'',
              score_primary = 0, score_enhanced = 7 / 8, idx = 1\<rparr>)]) =
   [\<lparr>theme = ''SDG7'', file' = ''b.pdf'', entry_chunk_text = ''energy'',
      score_primary = 0, score_enhanced = 7 / 8, idx = 1,
      combined_score = 4728779608739021 / 2 ^ 54\<rparr>,
    \<lparr>theme = ''SDG6'', file' = ''a.pdf'', entry_chunk_text = ''water'',
      score_primary = 3 / 8, score_enhanced = 0, idx = 0,
      combined_score = 4728779608739020 / 2 ^ 54\<rparr>]"
  using combined_three_eighths combined_seven_eighths
  by (simp add: scored_values_def with_combined_score_def sorted_results_def float64_zero)

theorem fusion_unions_and_ranks_witness:
  "fuse example_rows [(3 / 8, 0), (lowest_score, - 1)] [(7 / 8, 1), (lowest_score, - 1)] 2 =
     Inr [\<lparr>theme = ''SDG7'', file' = ''b.pdf'', entry_chunk_text = ''energy'',
           score_primary = 0, score_enhanced = 7 / 8, idx = 1,
           combined_score = 4728779608739021 / 2 ^ 54\<rparr>,
          \<lparr>theme = ''SDG6'', file' = ''a.pdf'', entry_chunk_text = ''water'',
           score_primary = 3 / 8, score_enhanced = 0, idx = 0,
           combined_score = 4728779608739020 / 2 ^ 54\<rparr>] \<and>
   hit_ids example_rows [(3 / 8, 0), (lowest_score, - 1)] = {10} \<and>
   hit_ids example_rows [(7 / 8, 1), (lowest_score, - 1)] = {11}"
proof -
  have labels: "\<forall>h\<in>set [(3 / 8, 0), (lowest_score, - 1)] \<union>
                   set [(7 / 8, 1), (lowest_score, - 1)]. - 1 \<le> (snd h :: int)"
    by simp
  have ids: "hit_ids example_rows [(3 / 8, 0), (lowest_score, - 1)] = {10}"
    "hit_ids example_rows [(7 / 8, 1), (lowest_score, - 1)] = {11}"
    by (auto simp add: hit_ids_def valid_label_def example_rows_def)
  from fusion_unions_and_ranks [OF labels, of example_rows 2]
  obtain d where d: "combined_results example_rows [(3 / 8, 0), (lowest_score, - 1)]
          [(7 / 8, 1), (lowest_score, - 1)] = Inr d"
    and f: "fuse example_rows [(3 / 8, 0), (lowest_score, - 1)]
          [(7 / 8, 1), (lowest_score, - 1)] 2 =
         Inr (slice_to 2 (sorted_results (scored_values d)))"
    and t: "(0::int) \<le> 2 \<longrightarrow> slice_to 2 (sorted_results (scored_values d)) =
                        take (nat 2) (sorted_results (scored_values d))"
    by blast
  from d have "d = [(10, \<lparr>theme = ''SDG6'', file' = ''a.pdf'', entry_chunk_text = ''water'',
              score_primary = 3 / 8, score_enhanced = 0, idx = 0\<rparr>),
        (11, \<lparr>theme = ''SDG7'', file' = ''b.pdf'', entry_chunk_text = ''energy'',
              score_primary = 0, score_enhanced = 7 / 8, idx = 1\<rparr>)]"
    by (simp add: example_combined_results)
  with f t ids show ?thesis by (simp add: example_sorted_results)
qed

lemma getitem_minus_one: "cs \<noteq> [] \<Longrightarrow> getitem cs (- 1) = Inr (last cs)"
  by (cases cs rule: rev_cases) (simp_all add: getitem_def)

text \<open>
  The loop of \<open>semantic_search\<close> in app.py keeps every entry whose label is below
  \<open>len(chunks)\<close>, the label \<open>-1\<close> included, for which it reads the last chunk.
\<close>

lemma search_loop_results:
  assumes "\<forall>h\<in>set found. - 1 \<le> snd h" and "cs \<noteq> []"
  shows "search_loop cs found results =
           Inr (results @
                map (\<lambda>(sc, i). \<lparr>chunk_text' = (if i = - 1 then last cs else cs ! nat i),
                                 score = sc, chunk_index = i\<rparr>)
                  (filter (\<lambda>(sc, i). i < int (length cs)) found))"
  using assms(1)
proof (induction found arbitrary: results)
  case Nil
  show ?case by simp
next
  case (Cons h found)
  obtain sc i where h: "h = (sc, i)" by (cases h)
  from Cons.prems have i: "- 1 \<le> i" and rest: "\<forall>h\<in>set found. - 1 \<le> snd h"
    by (simp_all add: h)
  show ?case
  proof (cases "i < int (length cs)")
    case False
    with Cons.IH [OF rest] show ?thesis by (simp add: h)
  next
    case True
    have "getitem cs i = Inr (if i = - 1 then last cs else cs ! nat i)"
    proof (cases "i = - 1")
      case True
      with assms(2) show ?thesis by (simp add: getitem_minus_one)
    next
      case False
      with i True show ?thesis by (simp add: getitem_def)
    qed
    with True Cons.IH [OF rest] show ?thesis by (simp add: h)
  qed
qed


end
